theory Spec2Isabelle
  imports Complex_Main "HOL-Library.Word"
begin

section \<open>Python values shared by the four tile scripts\<close>

text \<open>
  The scripts under \<^verbatim>\<open>src/assets/tiles\<close> are Python. Python integers are
  unbounded and are modelled as \<^typ>\<open>int\<close> (\<open>//\<close> is floor division, as \<open>div\<close> on
  \<^typ>\<open>int\<close> is). File names are modelled as \<^typ>\<open>string\<close>, one \<^typ>\<open>char\<close> per code
  point, which covers the code points below 256. Exceptions are values of \<open>py_error\<close>;
  \<open>SaveError\<close> stands for what Pillow raises when it is asked to write an empty image.
\<close>

datatype py_error = ValueError | ZeroDivisionError | FileNotFoundError | SaveError

subsection \<open>\<^verbatim>\<open>str(int)\<close>, \<^verbatim>\<open>int(str)\<close>\<close>

text \<open>\<^verbatim>\<open>ord(c)\<close>, the code point of a character.\<close>

definition py_ord :: "char \<Rightarrow> nat" where
  "py_ord c = of_char c"

definition digit_char :: "nat \<Rightarrow> char" where
  "digit_char d = char_of (py_ord (CHR ''0'') + d)"

definition is_digit :: "char \<Rightarrow> bool" where
  "is_digit c = (py_ord (CHR ''0'') \<le> py_ord c \<and> py_ord c \<le> py_ord (CHR ''9''))"

definition digit_val :: "char \<Rightarrow> nat" where
  "digit_val c = py_ord c - py_ord (CHR ''0'')"

fun show_nat :: "nat \<Rightarrow> string" where
  "show_nat n = (if n < 10 then [digit_char n] else show_nat (n div 10) @ [digit_char (n mod 10)])"

declare show_nat.simps [simp del]

text \<open>\<^verbatim>\<open>str(i)\<close> and the \<^verbatim>\<open>{i}\<close> of an f-string: decimal, a leading \<open>-\<close> below zero.\<close>

definition show_int :: "int \<Rightarrow> string" where
  "show_int i = (if i < 0 then CHR ''-'' # show_nat (nat (- i)) else show_nat (nat i))"

text \<open>
  The characters \<^verbatim>\<open>int()\<close> strips at both ends of a \<^verbatim>\<open>str\<close>: tab, LF, VT, FF, CR,
  space, and of the code points from 128 to 255 the two that are Unicode white space, NEL
  (0x85) and NBSP (0xA0).
\<close>

definition is_space :: "char \<Rightarrow> bool" where
  "is_space c = (c \<in> {CHR 0x09, CHR 0x0A, CHR 0x0B, CHR 0x0C, CHR 0x0D, CHR 0x20, CHR 0x85, CHR 0xA0})"

definition strip :: "string \<Rightarrow> string" where
  "strip s = rev (dropWhile is_space (rev (dropWhile is_space s)))"

text \<open>
  The digits of a decimal literal as \<^verbatim>\<open>int()\<close> reads them: at least one digit, and
  single underscores allowed between two digits. \<open>prev\<close> says that the character before
  was a digit.
\<close>

fun py_digits :: "nat \<Rightarrow> bool \<Rightarrow> string \<Rightarrow> nat option" where
  "py_digits acc prev [] = (if prev then Some acc else None)"
| "py_digits acc prev (c # cs) =
     (if is_digit c then py_digits (acc * 10 + digit_val c) True cs
      else if c = CHR ''_'' \<and> prev then py_digits acc False cs
      else None)"

text \<open>\<^verbatim>\<open>int(s)\<close>; \<open>None\<close> is the \<^verbatim>\<open>ValueError\<close>.\<close>

definition py_int :: "string \<Rightarrow> int option" where
  "py_int s =
     (case strip s of
        c # cs \<Rightarrow>
          (if c = CHR ''-'' then map_option (\<lambda>n. - int n) (py_digits 0 False cs)
           else if c = CHR ''+'' then map_option int (py_digits 0 False cs)
           else map_option int (py_digits 0 False (c # cs)))
      | [] \<Rightarrow> None)"

subsection \<open>\<^verbatim>\<open>str.split\<close>, \<^verbatim>\<open>str.endswith\<close>, \<^verbatim>\<open>str.lower\<close>, \<^verbatim>\<open>os.path.splitext\<close>\<close>

text \<open>\<^verbatim>\<open>s.split(c)\<close> for a one-character separator: never the empty list.\<close>

fun split_on :: "char \<Rightarrow> string \<Rightarrow> string list" where
  "split_on c [] = [[]]"
| "split_on c (x # xs) =
     (if x = c then [] # split_on c xs
      else (case split_on c xs of p # ps \<Rightarrow> (x # p) # ps | [] \<Rightarrow> [[x]]))"

definition endswith :: "string \<Rightarrow> string \<Rightarrow> bool" where
  "endswith s suf = (length suf \<le> length s \<and> drop (length s - length suf) s = suf)"

text \<open>
  \<^verbatim>\<open>str.lower\<close> on the code points below 256: A to Z, and the Latin-1 capitals 0xC0 to
  0xDE without the multiplication sign 0xD7, move up by 32.
\<close>

definition lower_char :: "char \<Rightarrow> char" where
  "lower_char c =
     (if (py_ord (CHR ''A'') \<le> py_ord c \<and> py_ord c \<le> py_ord (CHR ''Z''))
         \<or> (0xC0 \<le> py_ord c \<and> py_ord c \<le> 0xDE \<and> py_ord c \<noteq> 0xD7)
      then char_of (py_ord c + 32) else c)"

definition py_lower :: "string \<Rightarrow> string" where
  "py_lower s = map lower_char s"

text \<open>\<^verbatim>\<open>s.rfind(c)\<close>: the index of the last \<open>c\<close>, or \<open>-1\<close>.\<close>

definition rfind :: "char \<Rightarrow> string \<Rightarrow> int" where
  "rfind c s =
     (if c \<in> set s then int (length s) - 1 - int (length (takeWhile (\<lambda>x. x \<noteq> c) (rev s)))
      else - 1)"

text \<open>
  \<^verbatim>\<open>os.path.splitext\<close> (posixpath): the extension starts at the last dot after the last
  \<open>/\<close>, unless only dots stand between that \<open>/\<close> and the last dot.
\<close>

definition splitext :: "string \<Rightarrow> string \<times> string" where
  "splitext p =
     (let sepIndex = rfind (CHR ''/'') p;
          dotIndex = rfind (CHR ''.'') p
      in if dotIndex > sepIndex
            \<and> list_ex (\<lambda>ch. ch \<noteq> CHR ''.'') (take (nat (dotIndex - (sepIndex + 1))) (drop (nat (sepIndex + 1)) p))
         then (take (nat dotIndex) p, drop (nat dotIndex) p)
         else (p, []))"

subsection \<open>Loops that an exception leaves\<close>

text \<open>A \<^verbatim>\<open>for\<close> loop over a list whose body may raise: the first error ends the run.\<close>

primrec for_each :: "('a \<Rightarrow> 's \<Rightarrow> py_error + 's) \<Rightarrow> 'a list \<Rightarrow> 's \<Rightarrow> py_error + 's" where
  "for_each body [] s = Inr s"
| "for_each body (x # xs) s =
     (case body x s of Inl e \<Rightarrow> Inl e | Inr s' \<Rightarrow> for_each body xs s')"

text \<open>\<^verbatim>\<open>range(n)\<close>: empty when \<open>n \<le> 0\<close>.\<close>

definition py_range :: "int \<Rightarrow> int list" where
  "py_range n = [0..n - 1]"

section \<open>The coordinate renamer (\<^verbatim>\<open>renamer.py\<close>)\<close>

text \<open>
  A folder is a map from the names of its entries to their contents; the entries are plain
  files. \<^verbatim>\<open>os.listdir\<close> returns the names in an order the file system chooses, so the
  listing is an argument of the run. \<^verbatim>\<open>os.rename\<close> is the POSIX one: a missing source
  raises, an existing destination is replaced.
\<close>

type_synonym 'a folder = "string \<rightharpoonup> 'a"

definition os_rename :: "'a folder \<Rightarrow> string \<Rightarrow> string \<Rightarrow> py_error + 'a folder" where
  "os_rename fs src dst =
     (case fs src of
        None \<Rightarrow> Inl FileNotFoundError
      | Some content \<Rightarrow> Inr ((fs(src := None))(dst \<mapsto> content)))"

definition TILESET_WIDTH :: int where
  "TILESET_WIDTH = 17"

text \<open>The lines the script prints.\<close>

datatype event = Skipped string | Renamed string string

text \<open>
  \<^verbatim>\<open>x, y = map(int, name.split("_"))\<close>: the unpacking raises \<^verbatim>\<open>ValueError\<close> unless there
  are exactly two parts, \<^verbatim>\<open>int\<close> raises it on a part it cannot read; \<open>None\<close> is that error.
\<close>

definition parse_xy :: "string \<Rightarrow> (int \<times> int) option" where
  "parse_xy name =
     (case split_on (CHR ''_'') name of
        [a, b] \<Rightarrow>
          (case py_int a of
             None \<Rightarrow> None
           | Some x \<Rightarrow> (case py_int b of None \<Rightarrow> None | Some y \<Rightarrow> Some (x, y)))
      | _ \<Rightarrow> None)"

definition tile_id :: "int \<Rightarrow> int \<Rightarrow> int" where
  "tile_id x y = y div 16 * TILESET_WIDTH + (x div 16) + 1"

text \<open>The body of the loop, for one \<open>filename\<close> of the listing.\<close>

definition renamer_body :: "string \<Rightarrow> 'a folder \<times> event list \<Rightarrow> py_error + 'a folder \<times> event list" where
  "renamer_body filename st =
     (case st of (fs, out) \<Rightarrow>
        if endswith filename ''.png'' then
          (let name = fst (splitext filename) in
           case parse_xy name of
             None \<Rightarrow> Inr (fs, out @ [Skipped filename])
           | Some (x, y) \<Rightarrow>
               (let new_name = show_int (tile_id x y) @ ''.png'' in
                case os_rename fs filename new_name of
                  Inl e \<Rightarrow> Inl e
                | Inr fs' \<Rightarrow> Inr (fs', out @ [Renamed filename new_name])))
        else Inr (fs, out))"

definition renamer :: "'a folder \<Rightarrow> string list \<Rightarrow> py_error + 'a folder \<times> event list" where
  "renamer fs listing = for_each renamer_body listing (fs, [])"

section \<open>Images (the part of Pillow the scripts use)\<close>

text \<open>
  An RGBA pixel is four bytes. An image has a size and a pixel at every coordinate inside
  it; \<open>im_pixel\<close> is read only where \<open>in_bounds\<close> holds. Every image below is the
  result of \<^verbatim>\<open>.convert("RGBA")\<close>.
\<close>

datatype rgba = RGBA (chan_r: "8 word") (chan_g: "8 word") (chan_b: "8 word") (chan_a: "8 word")

definition transparent :: rgba where
  "transparent = RGBA 0 0 0 0"

record image =
  im_width :: nat
  im_height :: nat
  im_pixel :: "int \<Rightarrow> int \<Rightarrow> rgba"

definition in_bounds :: "image \<Rightarrow> int \<Rightarrow> int \<Rightarrow> bool" where
  "in_bounds im px py = (0 \<le> px \<and> px < int (im_width im) \<and> 0 \<le> py \<and> py < int (im_height im))"

text \<open>\<^verbatim>\<open>Image.new("RGBA", (w, h))\<close>: fully transparent; a negative side raises.\<close>

definition Image_new :: "int \<Rightarrow> int \<Rightarrow> py_error + image" where
  "Image_new w h =
     (if w < 0 \<or> h < 0 then Inl ValueError
      else Inr \<lparr>im_width = nat w, im_height = nat h, im_pixel = (\<lambda>px py. transparent)\<rparr>)"

text \<open>
  \<^verbatim>\<open>im.save(path)\<close> as a PNG: an image with a side of 0 cannot be written, the call raises
  and leaves no file; any other image is written.
\<close>

definition Image_save :: "image \<Rightarrow> py_error + unit" where
  "Image_save im = (if im_width im = 0 \<or> im_height im = 0 then Inl SaveError else Inr ())"

text \<open>
  \<^verbatim>\<open>dst.paste(src, (x, y))\<close>: the pixels of \<open>src\<close> replace those of \<open>dst\<close> in the box
  whose upper left corner is \<open>(x, y)\<close>, clipped to \<open>dst\<close>.
\<close>

definition paste :: "image \<Rightarrow> image \<Rightarrow> int \<times> int \<Rightarrow> image" where
  "paste dst src box =
     (case box of (x, y) \<Rightarrow>
        dst\<lparr>im_pixel := (\<lambda>px py.
          if in_bounds dst px py \<and> in_bounds src (px - x) (py - y)
          then im_pixel src (px - x) (py - y) else im_pixel dst px py)\<rparr>)"

text \<open>
  \<^verbatim>\<open>dst.paste(src, (x, y), mask)\<close> with an RGBA mask: in the same box every channel of
  \<open>dst\<close> is blended with that of \<open>src\<close>, weighted by the alpha of the mask \<open>msk\<close>; a
  mask of another size than \<open>src\<close> raises. The rounding of the blend is Pillow's and is the
  parameter \<open>blend\<close> (alpha of the mask, channel of \<open>dst\<close>, channel of \<open>src\<close>).
\<close>

definition blend_pixel :: "(8 word \<Rightarrow> 8 word \<Rightarrow> 8 word \<Rightarrow> 8 word) \<Rightarrow> 8 word \<Rightarrow> rgba \<Rightarrow> rgba \<Rightarrow> rgba" where
  "blend_pixel blend a d s =
     RGBA (blend a (chan_r d) (chan_r s)) (blend a (chan_g d) (chan_g s))
          (blend a (chan_b d) (chan_b s)) (blend a (chan_a d) (chan_a s))"

definition paste_mask ::
  "(8 word \<Rightarrow> 8 word \<Rightarrow> 8 word \<Rightarrow> 8 word) \<Rightarrow> image \<Rightarrow> image \<Rightarrow> int \<times> int \<Rightarrow> image \<Rightarrow> py_error + image" where
  "paste_mask blend dst src box msk =
     (case box of (x, y) \<Rightarrow>
        if im_width msk \<noteq> im_width src \<or> im_height msk \<noteq> im_height src then Inl ValueError
        else Inr (dst\<lparr>im_pixel := (\<lambda>px py.
          if in_bounds dst px py \<and> in_bounds src (px - x) (py - y)
          then blend_pixel blend (chan_a (im_pixel msk (px - x) (py - y)))
                 (im_pixel dst px py) (im_pixel src (px - x) (py - y))
          else im_pixel dst px py)\<rparr>))"

text \<open>
  \<^verbatim>\<open>im.crop((left, upper, right, lower))\<close>: a box turned inside out raises; what of the box
  lies outside \<open>im\<close> is transparent.
\<close>

definition crop :: "image \<Rightarrow> int \<times> int \<times> int \<times> int \<Rightarrow> py_error + image" where
  "crop im box =
     (case box of (left, upper, right, lower) \<Rightarrow>
        if right < left \<or> lower < upper then Inl ValueError
        else Inr \<lparr>im_width = nat (right - left), im_height = nat (lower - upper),
                  im_pixel = (\<lambda>px py.
                    if 0 \<le> px \<and> px < right - left \<and> 0 \<le> py \<and> py < lower - upper
                       \<and> in_bounds im (left + px) (upper + py)
                    then im_pixel im (left + px) (upper + py) else transparent)\<rparr>)"

text \<open>
  \<^verbatim>\<open>im.getbbox()\<close> of an RGBA image: the bounding box of the pixels whose alpha is not
  zero, \<open>None\<close> when there is none.
\<close>

definition opaque_columns :: "image \<Rightarrow> int list" where
  "opaque_columns im =
     filter (\<lambda>px. list_ex (\<lambda>py. chan_a (im_pixel im px py) \<noteq> 0) (py_range (int (im_height im))))
       (py_range (int (im_width im)))"

definition opaque_rows :: "image \<Rightarrow> int list" where
  "opaque_rows im =
     filter (\<lambda>py. list_ex (\<lambda>px. chan_a (im_pixel im px py) \<noteq> 0) (py_range (int (im_width im))))
       (py_range (int (im_height im)))"

definition getbbox :: "image \<Rightarrow> (int \<times> int \<times> int \<times> int) option" where
  "getbbox im =
     (if opaque_columns im = [] then None
      else Some (hd (opaque_columns im), hd (opaque_rows im),
                 last (opaque_columns im) + 1, last (opaque_rows im) + 1))"

section \<open>The tileset splitter (\<^verbatim>\<open>tilesplitter.py\<close>)\<close>

definition tile_filename :: "int \<Rightarrow> int \<Rightarrow> int \<Rightarrow> int \<Rightarrow> string" where
  "tile_filename tile_width tile_height x y =
     show_int (x * tile_width) @ ''_'' @ show_int (y * tile_height) @ ''.png''"

text \<open>
  The body of the inner loop for the cell \<open>(x, y)\<close>. The state is the list of the files
  saved so far, in the order of the \<^verbatim>\<open>tile.save\<close> calls, and \<open>count\<close>. The loops run
  only for a positive tile width and height, so no tile they save is empty.
\<close>

definition split_cell ::
  "image \<Rightarrow> int \<Rightarrow> int \<Rightarrow> bool \<Rightarrow> int \<Rightarrow> int \<Rightarrow> (string \<times> image) list \<times> int
     \<Rightarrow> py_error + (string \<times> image) list \<times> int" where
  "split_cell tileset tile_width tile_height skip_empty y x st =
     (case st of (saved, count) \<Rightarrow>
        (let left = x * tile_width;
             upper = y * tile_height;
             right = left + tile_width;
             lower = upper + tile_height
         in case crop tileset (left, upper, right, lower) of
              Inl e \<Rightarrow> Inl e
            | Inr tile \<Rightarrow>
                if skip_empty \<and> getbbox tile = None then Inr (saved, count)
                else Inr (saved @ [(tile_filename tile_width tile_height x y, tile)], count + 1)))"

text \<open>
  \<open>src\<close> maps a path to the image \<^verbatim>\<open>Image.open(path).convert("RGBA")\<close> yields. The result
  is the list of the saved files and the \<open>count\<close> the script prints.
\<close>

definition split_tileset ::
  "(string \<rightharpoonup> image) \<Rightarrow> string \<Rightarrow> int \<Rightarrow> int \<Rightarrow> bool \<Rightarrow> py_error + (string \<times> image) list \<times> int" where
  "split_tileset src image_path tile_width tile_height skip_empty =
     (case src image_path of
        None \<Rightarrow> Inl FileNotFoundError
      | Some tileset \<Rightarrow>
          if tile_width = 0 then Inl ZeroDivisionError
          else let tiles_x = int (im_width tileset) div tile_width in
          if tile_height = 0 then Inl ZeroDivisionError
          else let tiles_y = int (im_height tileset) div tile_height in
          for_each
            (\<lambda>y. for_each (split_cell tileset tile_width tile_height skip_empty y) (py_range tiles_x))
            (py_range tiles_y) ([], 0))"

section \<open>The atlas packer (\<^verbatim>\<open>tilemapforatlas.py\<close>)\<close>

datatype rect = Rect (rect_x: int) (rect_y: int) (rect_width: int) (rect_height: int)

text \<open>
  \<^verbatim>\<open>mapping[k] = v\<close> on a \<^verbatim>\<open>dict\<close>, which keeps the order of first insertion (the order
  \<^verbatim>\<open>json.dump\<close> writes): a key already there keeps its place and takes the new value.
\<close>

fun dict_set :: "('k \<times> 'v) list \<Rightarrow> 'k \<Rightarrow> 'v \<Rightarrow> ('k \<times> 'v) list" where
  "dict_set [] k v = [(k, v)]"
| "dict_set (p # ps) k v = (if fst p = k then (k, v) # ps else p # dict_set ps k v)"

definition py_enumerate :: "'a list \<Rightarrow> (int \<times> 'a) list" where
  "py_enumerate xs = zip (map int [0..<length xs]) xs"

definition is_png :: "string \<Rightarrow> bool" where
  "is_png f = endswith (py_lower f) ''.png''"

definition stem_int :: "string \<Rightarrow> int option" where
  "stem_int f = py_int (fst (splitext f))"

text \<open>
  The first statement of \<^verbatim>\<open>main\<close>: \<^verbatim>\<open>sorted\<close> computes the key of every selected name
  first, so one stem that \<^verbatim>\<open>int\<close> rejects raises before anything is sorted; the sort is
  stable.
\<close>

definition sorted_files :: "string list \<Rightarrow> py_error + string list" where
  "sorted_files listing =
     (let pngs = filter is_png listing
      in if list_ex (\<lambda>f. stem_int f = None) pngs then Inl ValueError
         else Inr (sort_key (\<lambda>f. the (stem_int f)) pngs))"

record packed =
  atlas :: image
  manifest :: "(string \<times> rect) list"

definition pack_body ::
  "int \<Rightarrow> int \<Rightarrow> (string \<rightharpoonup> image) \<Rightarrow> int \<times> string \<Rightarrow> image \<times> (string \<times> rect) list
     \<Rightarrow> py_error + image \<times> (string \<times> rect) list" where
  "pack_body tile_size atlas_cols fs entry st =
     (case (entry, st) of ((i, file), (atlas_im, mapping)) \<Rightarrow>
        (let tile_id = fst (splitext file) in
         case fs file of
           None \<Rightarrow> Inl FileNotFoundError
         | Some img \<Rightarrow>
             (let x = (i mod atlas_cols) * tile_size;
                  y = (i div atlas_cols) * tile_size
              in Inr (paste atlas_im img (x, y),
                      dict_set mapping (''tile-'' @ tile_id) (Rect x y tile_size tile_size)))))"

text \<open>
  \<^verbatim>\<open>main\<close> with its two configuration constants as arguments. \<^verbatim>\<open>total / ATLAS_COLS\<close> is
  the true division, here on the reals (the float quotient has the same ceiling for every
  number of files below \<open>2^53\<close>). The atlas and the manifest are written after the loop,
  the atlas first: a run that raises, in the loop or in \<^verbatim>\<open>atlas.save\<close> on an empty atlas,
  has written neither, and the result is then the error alone.
\<close>

definition pack :: "int \<Rightarrow> int \<Rightarrow> (string \<rightharpoonup> image) \<Rightarrow> string list \<Rightarrow> py_error + packed" where
  "pack tile_size atlas_cols fs listing =
     (case sorted_files listing of
        Inl e \<Rightarrow> Inl e
      | Inr files \<Rightarrow>
          (let total = int (length files) in
           if atlas_cols = 0 then Inl ZeroDivisionError
           else let rows = \<lceil>real_of_int total / real_of_int atlas_cols\<rceil>;
                    atlas_w = atlas_cols * tile_size;
                    atlas_h = rows * tile_size
           in case Image_new atlas_w atlas_h of
                Inl e \<Rightarrow> Inl e
              | Inr canvas \<Rightarrow>
                  (case for_each (pack_body tile_size atlas_cols fs) (py_enumerate files) (canvas, []) of
                     Inl e \<Rightarrow> Inl e
                   | Inr (atlas_im, mapping) \<Rightarrow>
                       (case Image_save atlas_im of
                          Inl e \<Rightarrow> Inl e
                        | Inr u \<Rightarrow> Inr \<lparr>atlas = atlas_im, manifest = mapping\<rparr>))))"

definition TILE_SIZE :: int where
  "TILE_SIZE = 16"

definition ATLAS_COLS :: int where
  "ATLAS_COLS = 16"

definition main :: "(string \<rightharpoonup> image) \<Rightarrow> string list \<Rightarrow> py_error + packed" where
  "main fs listing = pack TILE_SIZE ATLAS_COLS fs listing"

section \<open>The chunk baker (\<^verbatim>\<open>tilebaker.py\<close>)\<close>

definition CHUNK_SIZE :: int where
  "CHUNK_SIZE = 16"

definition MAP_COLS :: int where
  "MAP_COLS = TILE_SIZE"

definition MAP_ROWS :: int where
  "MAP_ROWS = TILE_SIZE"

definition GRASS_TILE_ID :: int where
  "GRASS_TILE_ID = 24"

definition chunk_filename :: "int \<Rightarrow> int \<Rightarrow> string" where
  "chunk_filename cx cy = ''grass-chunk-'' @ show_int cx @ ''-'' @ show_int cy @ ''.png''"

text \<open>The two inner loops: the tile is pasted, with itself as mask, at every cell.\<close>

definition fill_chunk ::
  "(8 word \<Rightarrow> 8 word \<Rightarrow> 8 word \<Rightarrow> 8 word) \<Rightarrow> int \<Rightarrow> int \<Rightarrow> image \<Rightarrow> image \<Rightarrow> py_error + image" where
  "fill_chunk blend tile_size chunk_size grass_tile chunk_img =
     for_each
       (\<lambda>y. for_each
          (\<lambda>x img. (let px = x * tile_size; py = y * tile_size
                     in paste_mask blend img grass_tile (px, py) grass_tile))
          (py_range chunk_size))
       (py_range chunk_size) chunk_img"

text \<open>
  The body of the two outer loops, for the chunk \<open>(cx, cy)\<close>: a new transparent image is
  filled and saved. \<^verbatim>\<open>chunk_img.save\<close> raises on an image with a side of 0, which is the
  chunk of a tile size or chunk size of 0; the run ends there and that chunk is not saved.
\<close>

definition bake_chunk ::
  "(8 word \<Rightarrow> 8 word \<Rightarrow> 8 word \<Rightarrow> 8 word) \<Rightarrow> int \<Rightarrow> int \<Rightarrow> image \<Rightarrow> int \<Rightarrow> int
     \<Rightarrow> (string \<times> image) list \<Rightarrow> py_error + (string \<times> image) list" where
  "bake_chunk blend tile_size chunk_size grass_tile cy cx saved =
     (case Image_new (chunk_size * tile_size) (chunk_size * tile_size) of
        Inl e \<Rightarrow> Inl e
      | Inr chunk_img \<Rightarrow>
          (case fill_chunk blend tile_size chunk_size grass_tile chunk_img of
             Inl e \<Rightarrow> Inl e
           | Inr img \<Rightarrow>
               (case Image_save img of
                  Inl e \<Rightarrow> Inl e
                | Inr u \<Rightarrow> Inr (saved @ [(chunk_filename cx cy, img)]))))"

text \<open>
  The script with its configuration constants as arguments; the result is the list of the
  files saved, in the order of the \<^verbatim>\<open>chunk_img.save\<close> calls.
\<close>

definition bake ::
  "(8 word \<Rightarrow> 8 word \<Rightarrow> 8 word \<Rightarrow> 8 word) \<Rightarrow> int \<Rightarrow> int \<Rightarrow> int \<Rightarrow> int \<Rightarrow> int \<Rightarrow> (string \<rightharpoonup> image)
     \<Rightarrow> py_error + (string \<times> image) list" where
  "bake blend tile_size chunk_size map_cols map_rows grass_tile_id fs =
     (case fs (show_int grass_tile_id @ ''.png'') of
        None \<Rightarrow> Inl FileNotFoundError
      | Some grass_tile \<Rightarrow>
          if chunk_size = 0 then Inl ZeroDivisionError
          else let chunk_cols = \<lceil>real_of_int map_cols / real_of_int chunk_size\<rceil>;
                   chunk_rows = \<lceil>real_of_int map_rows / real_of_int chunk_size\<rceil>
          in for_each
               (\<lambda>cy. for_each (bake_chunk blend tile_size chunk_size grass_tile cy) (py_range chunk_cols))
               (py_range chunk_rows) [])"

definition tilebaker ::
  "(8 word \<Rightarrow> 8 word \<Rightarrow> 8 word \<Rightarrow> 8 word) \<Rightarrow> (string \<rightharpoonup> image) \<Rightarrow> py_error + (string \<times> image) list" where
  "tilebaker blend fs = bake blend TILE_SIZE CHUNK_SIZE MAP_COLS MAP_ROWS GRASS_TILE_ID fs"

section \<open>Auxiliary notions for the statements\<close>

text \<open>The value of a string of decimal digits, read from the left with \<open>acc\<close> before it.\<close>

definition digits_value :: "nat \<Rightarrow> string \<Rightarrow> nat" where
  "digits_value acc s = foldl (\<lambda>a c. a * 10 + digit_val c) acc s"

text \<open>
  The name the renamer gives the file \<open>f\<close>: \<open>None\<close> when its loop leaves \<open>f\<close> alone,
  because the name does not end in \<^verbatim>\<open>.png\<close> or its stem is not two integers.
\<close>

definition rename_target :: "string \<Rightarrow> string option" where
  "rename_target f =
     (if endswith f ''.png''
      then map_option (\<lambda>(x, y). show_int (tile_id x y) @ ''.png'') (parse_xy (fst (splitext f)))
      else None)"

text \<open>
  The tile the splitter cuts for the cell \<open>(x, y)\<close>: what \<^verbatim>\<open>crop\<close> returns for the box
  \<open>(x * tile_width, y * tile_height, x * tile_width + tile_width, y * tile_height + tile_height)\<close>.
\<close>

definition tile_at :: "image \<Rightarrow> int \<Rightarrow> int \<Rightarrow> int \<Rightarrow> int \<Rightarrow> image" where
  "tile_at tileset tile_width tile_height x y =
     \<lparr>im_width = nat tile_width, im_height = nat tile_height,
      im_pixel = (\<lambda>px py.
        if 0 \<le> px \<and> px < tile_width \<and> 0 \<le> py \<and> py < tile_height
           \<and> in_bounds tileset (x * tile_width + px) (y * tile_height + py)
        then im_pixel tileset (x * tile_width + px) (y * tile_height + py) else transparent)\<rparr>"

text \<open>Every pixel of the image has alpha 0.\<close>

definition fully_transparent :: "image \<Rightarrow> bool" where
  "fully_transparent im = (\<forall>px py. in_bounds im px py \<longrightarrow> chan_a (im_pixel im px py) = 0)"

text \<open>The cells of a grid in row-major order: \<open>y\<close> outer, \<open>x\<close> inner.\<close>

definition grid_cells :: "int \<Rightarrow> int \<Rightarrow> (int \<times> int) list" where
  "grid_cells tiles_x tiles_y = concat (map (\<lambda>y. map (\<lambda>x. (x, y)) (py_range tiles_x)) (py_range tiles_y))"

text \<open>Whether the splitter saves the tile of a cell, and the file it then saves.\<close>

definition cell_saved :: "image \<Rightarrow> int \<Rightarrow> int \<Rightarrow> bool \<Rightarrow> int \<times> int \<Rightarrow> bool" where
  "cell_saved tileset tile_width tile_height skip_empty cell =
     (case cell of (x, y) \<Rightarrow> \<not> (skip_empty \<and> fully_transparent (tile_at tileset tile_width tile_height x y)))"

definition cell_file :: "image \<Rightarrow> int \<Rightarrow> int \<Rightarrow> int \<times> int \<Rightarrow> string \<times> image" where
  "cell_file tileset tile_width tile_height cell =
     (case cell of (x, y) \<Rightarrow> (tile_filename tile_width tile_height x y, tile_at tileset tile_width tile_height x y))"

text \<open>Two images for concrete runs: one colour everywhere, and one pixel changed.\<close>

definition solid_image :: "nat \<Rightarrow> nat \<Rightarrow> rgba \<Rightarrow> image" where
  "solid_image w h c = \<lparr>im_width = w, im_height = h, im_pixel = (\<lambda>px py. c)\<rparr>"

definition putpixel :: "image \<Rightarrow> int \<times> int \<Rightarrow> rgba \<Rightarrow> image" where
  "putpixel im xy c =
     (case xy of (x, y) \<Rightarrow> im\<lparr>im_pixel := (\<lambda>px py. if px = x \<and> py = y then c else im_pixel im px py)\<rparr>)"

text \<open>
  For the tile at position \<open>i\<close> of the sorted list: the origin the packer pastes it at, its
  key in the manifest and its rectangle. \<open>atlas_pixel\<close> reads a pixel of the atlas of a run.
\<close>

definition cell_origin :: "int \<Rightarrow> int \<Rightarrow> nat \<Rightarrow> int \<times> int" where
  "cell_origin tile_size atlas_cols i = ((int i mod atlas_cols) * tile_size, (int i div atlas_cols) * tile_size)"

definition manifest_key :: "string \<Rightarrow> string" where
  "manifest_key file = ''tile-'' @ fst (splitext file)"

definition cell_rect :: "int \<Rightarrow> int \<Rightarrow> nat \<Rightarrow> rect" where
  "cell_rect tile_size atlas_cols i =
     Rect ((int i mod atlas_cols) * tile_size) ((int i div atlas_cols) * tile_size) tile_size tile_size"

definition atlas_pixel :: "py_error + packed \<Rightarrow> int \<Rightarrow> int \<Rightarrow> rgba option" where
  "atlas_pixel r px py = (case r of Inl e \<Rightarrow> None | Inr p \<Rightarrow> Some (im_pixel (atlas p) px py))"

text \<open>A folder of two 16 by 16 tiles of different colours, for concrete runs.\<close>

definition two_tiles :: "string \<Rightarrow> string \<Rightarrow> string \<rightharpoonup> image" where
  "two_tiles a b = [a \<mapsto> solid_image 16 16 (RGBA 1 1 1 255), b \<mapsto> solid_image 16 16 (RGBA 2 2 2 255)]"

text \<open>
  Both ways of pasting have one shape: inside the box, and inside \<open>dst\<close>, the new pixel is
  \<open>combine\<close> of the old pixel and the pixel of \<open>src\<close>. \<open>covers\<close> says that the box of a paste
  holds the coordinate \<open>(px, py)\<close>.
\<close>

definition paste_with :: "(rgba \<Rightarrow> rgba \<Rightarrow> rgba) \<Rightarrow> image \<Rightarrow> image \<Rightarrow> int \<times> int \<Rightarrow> image" where
  "paste_with combine dst src box =
     (case box of (x, y) \<Rightarrow>
        dst\<lparr>im_pixel := (\<lambda>px py.
          if in_bounds dst px py \<and> in_bounds src (px - x) (py - y)
          then combine (im_pixel dst px py) (im_pixel src (px - x) (py - y)) else im_pixel dst px py)\<rparr>)"

definition covers :: "image \<Rightarrow> int \<times> int \<Rightarrow> int \<Rightarrow> int \<Rightarrow> bool" where
  "covers src box px py = (case box of (x, y) \<Rightarrow> in_bounds src (px - x) (py - y))"

text \<open>
  Pasting with the source as its own mask, and the chunk the baker's two inner loops build:
  the transparent canvas with the tile pasted at every cell, row by row.
\<close>

definition self_blend :: "(8 word \<Rightarrow> 8 word \<Rightarrow> 8 word \<Rightarrow> 8 word) \<Rightarrow> rgba \<Rightarrow> rgba \<Rightarrow> rgba" where
  "self_blend blend = (\<lambda>d s. blend_pixel blend (chan_a s) d s)"

definition filled_chunk :: "(8 word \<Rightarrow> 8 word \<Rightarrow> 8 word \<Rightarrow> 8 word) \<Rightarrow> int \<Rightarrow> int \<Rightarrow> image \<Rightarrow> image" where
  "filled_chunk blend tile_size chunk_size grass_tile =
     foldl (\<lambda>im cell. paste_with (self_blend blend) im grass_tile (fst cell * tile_size, snd cell * tile_size))
       \<lparr>im_width = nat (chunk_size * tile_size), im_height = nat (chunk_size * tile_size),
        im_pixel = (\<lambda>px py. transparent)\<rparr>
       (grid_cells chunk_size chunk_size)"

section \<open>Decimal strings and file names\<close>

lemma digit_cases: "d < 10 \<Longrightarrow> d \<in> {0, 1, 2, 3, 4, 5, 6, 7, 8, 9::nat}"
  by auto

lemma digit_char_props:
  assumes "d < 10"
  shows "is_digit (digit_char d)" and "digit_val (digit_char d) = d"
  using digit_cases [OF assms]
  by (auto simp: is_digit_def digit_val_def digit_char_def py_ord_def)

lemma is_digit_not_special:
  assumes "is_digit c"
  shows "c \<noteq> CHR ''_''" and "c \<noteq> CHR ''-''" and "c \<noteq> CHR ''+''" and "c \<noteq> CHR ''.''"
    and "c \<noteq> CHR ''/''" and "\<not> is_space c"
  using assms by (auto simp: is_digit_def is_space_def py_ord_def)

lemma show_nat_digits: "\<forall>c \<in> set (show_nat n). is_digit c"
proof (induction n rule: show_nat.induct)
  case (1 n)
  show ?case
  proof (cases "n < 10")
    case True
    then show ?thesis by (simp add: show_nat.simps [of n] digit_char_props)
  next
    case False
    with 1 show ?thesis by (simp add: show_nat.simps [of n] digit_char_props)
  qed
qed

lemma show_nat_nonempty: "show_nat n \<noteq> []"
  by (simp add: show_nat.simps [of n])

lemma py_digits_all_digits:
  "\<forall>c \<in> set s. is_digit c \<Longrightarrow> s \<noteq> [] \<or> prev \<Longrightarrow> py_digits acc prev s = Some (digits_value acc s)"
  by (induction s arbitrary: acc prev) (auto simp: digits_value_def)

lemma digits_value_show_nat: "digits_value 0 (show_nat n) = n"
proof (induction n rule: show_nat.induct)
  case (1 n)
  show ?case
  proof (cases "n < 10")
    case True
    then show ?thesis by (simp add: show_nat.simps [of n] digits_value_def digit_char_props)
  next
    case False
    with 1 have "digits_value 0 (show_nat (n div 10)) = n div 10" by simp
    with False show ?thesis
      by (simp add: show_nat.simps [of n] digits_value_def digit_char_props)
  qed
qed

lemma py_digits_show_nat: "py_digits 0 False (show_nat n) = Some n"
  by (simp add: py_digits_all_digits show_nat_digits show_nat_nonempty digits_value_show_nat)

lemma show_int_chars: "c \<in> set (show_int i) \<Longrightarrow> is_digit c \<or> c = CHR ''-''"
  using show_nat_digits by (auto simp: show_int_def split: if_splits)

lemma show_int_nonempty: "show_int i \<noteq> []"
  by (simp add: show_int_def show_nat_nonempty)

lemma strip_no_space: "\<forall>c \<in> set s. \<not> is_space c \<Longrightarrow> strip s = s"
proof -
  assume a: "\<forall>c \<in> set s. \<not> is_space c"
  have "dropWhile is_space s = s" using a by (cases s) auto
  moreover have "dropWhile is_space (rev s) = rev s" using a by (cases "rev s") (auto simp: rev_eq_Cons_iff)
  ultimately show ?thesis by (simp add: strip_def)
qed

lemma show_int_no_space: "\<forall>c \<in> set (show_int i). \<not> is_space c"
  using show_int_chars is_digit_not_special(6) by (auto simp: is_space_def)

lemma py_int_show_int: "py_int (show_int i) = Some i"
proof (cases "i < 0")
  case True
  have "strip (show_int i) = show_int i" by (rule strip_no_space [OF show_int_no_space])
  with True show ?thesis by (simp add: py_int_def show_int_def py_digits_show_nat)
next
  case False
  have s: "strip (show_int i) = show_nat (nat i)"
    using strip_no_space [OF show_int_no_space, of i] False by (simp add: show_int_def)
  obtain c cs where cs: "show_nat (nat i) = c # cs" using show_nat_nonempty by (cases "show_nat (nat i)") auto
  have "is_digit c" using show_nat_digits [of "nat i"] cs by simp
  then have "c \<noteq> CHR ''-''" "c \<noteq> CHR ''+''" using is_digit_not_special by auto
  moreover have "py_digits 0 False (c # cs) = Some (nat i)" using py_digits_show_nat [of "nat i"] cs by simp
  ultimately show ?thesis using s cs False by (simp add: py_int_def)
qed

lemma split_on_nonempty: "split_on c s \<noteq> []"
  by (induction s) (auto split: list.splits)

lemma split_on_no_sep: "c \<notin> set s \<Longrightarrow> split_on c s = [s]"
  by (induction s) auto

lemma split_on_first: "c \<notin> set a \<Longrightarrow> split_on c (a @ c # b) = a # split_on c b"
  by (induction a) auto

lemma show_int_no_underscore: "CHR ''_'' \<notin> set (show_int i)"
  using show_int_chars is_digit_not_special(1) by fastforce

lemma parse_xy_show: "parse_xy (show_int x @ ''_'' @ show_int y) = Some (x, y)"
  by (simp add: parse_xy_def split_on_first split_on_no_sep show_int_no_underscore py_int_show_int)

lemma parse_xy_no_underscore: "CHR ''_'' \<notin> set s \<Longrightarrow> parse_xy s = None"
  by (simp add: parse_xy_def split_on_no_sep)

section \<open>Properties of the renamer\<close>

lemma set_splitext: "set (fst (splitext p)) \<subseteq> set p"
  by (auto simp: splitext_def Let_def dest: in_set_takeD)

lemma target_name_not_renamed: "rename_target (show_int n @ ''.png'') = None"
proof -
  have "CHR ''_'' \<notin> set (show_int n @ ''.png'')" using show_int_no_underscore by simp
  then have "CHR ''_'' \<notin> set (fst (splitext (show_int n @ ''.png'')))" using set_splitext by blast
  then show ?thesis by (simp add: rename_target_def parse_xy_no_underscore)
qed

lemma rename_target_not_renamed: "rename_target f = Some new \<Longrightarrow> rename_target new = None"
proof -
  assume "rename_target f = Some new"
  then obtain n where "new = show_int n @ ''.png''"
    by (auto simp: rename_target_def split: if_splits)
  then show ?thesis by (simp add: target_name_not_renamed)
qed

lemma renamer_body_target:
  "rename_target f = Some new \<Longrightarrow> fs f = Some content \<Longrightarrow>
   renamer_body f (fs, out) = Inr ((fs(f := None))(new \<mapsto> content), out @ [Renamed f new])"
  by (auto simp: renamer_body_def rename_target_def os_rename_def Let_def split: if_splits)

lemma renamer_body_no_target:
  "rename_target f = None \<Longrightarrow>
   renamer_body f (fs, out) = Inr (fs, out @ (if endswith f ''.png'' then [Skipped f] else []))"
  by (auto simp: renamer_body_def rename_target_def Let_def split: option.splits)

lemma renamer_loop:
  assumes "distinct l" and "\<forall>f \<in> set l. rename_target f \<noteq> None \<longrightarrow> f \<in> dom fs"
  shows "\<exists>fs' out'. for_each renamer_body l (fs, out) = Inr (fs', out')
           \<and> set out \<subseteq> set out'
           \<and> (\<forall>f \<in> set l. \<forall>new. rename_target f = Some new \<longrightarrow> Renamed f new \<in> set out')
           \<and> (\<forall>f \<in> dom fs'. rename_target f \<noteq> None \<longrightarrow> f \<in> dom fs \<and> f \<notin> set l)
           \<and> (\<forall>k. (\<forall>g \<in> set l. rename_target g \<noteq> None \<longrightarrow> k \<noteq> g \<and> rename_target g \<noteq> Some k) \<longrightarrow> fs' k = fs k)"
  using assms
proof (induction l arbitrary: fs out)
  case Nil
  then show ?case by simp
next
  case (Cons f l)
  show ?case
  proof (cases "rename_target f")
    case None
    let ?out1 = "out @ (if endswith f ''.png'' then [Skipped f] else [])"
    from Cons.prems have "distinct l" "\<forall>g \<in> set l. rename_target g \<noteq> None \<longrightarrow> g \<in> dom fs" by auto
    from Cons.IH [OF this, of ?out1] obtain fs' out' where
      r: "for_each renamer_body l (fs, ?out1) = Inr (fs', out')"
      and o: "set ?out1 \<subseteq> set out'"
      and a: "\<forall>f \<in> set l. \<forall>new. rename_target f = Some new \<longrightarrow> Renamed f new \<in> set out'"
      and b: "\<forall>f \<in> dom fs'. rename_target f \<noteq> None \<longrightarrow> f \<in> dom fs \<and> f \<notin> set l"
      and e: "\<forall>k. (\<forall>g \<in> set l. rename_target g \<noteq> None \<longrightarrow> k \<noteq> g \<and> rename_target g \<noteq> Some k) \<longrightarrow> fs' k = fs k"
      by blast
    have "for_each renamer_body (f # l) (fs, out) = Inr (fs', out')"
      using None r by (simp add: renamer_body_no_target)
    moreover have "set out \<subseteq> set out'" using o by auto
    moreover have "\<forall>g \<in> set (f # l). \<forall>new. rename_target g = Some new \<longrightarrow> Renamed g new \<in> set out'"
      using a None by auto
    moreover have "\<forall>g \<in> dom fs'. rename_target g \<noteq> None \<longrightarrow> g \<in> dom fs \<and> g \<notin> set (f # l)"
      using b None by auto
    moreover have "\<forall>k. (\<forall>g \<in> set (f # l). rename_target g \<noteq> None \<longrightarrow> k \<noteq> g \<and> rename_target g \<noteq> Some k) \<longrightarrow> fs' k = fs k"
      using e by auto
    ultimately show ?thesis by blast
  next
    case (Some new)
    with Cons.prems obtain content where c: "fs f = Some content" by auto
    let ?fs1 = "(fs(f := None))(new \<mapsto> content)"
    let ?out1 = "out @ [Renamed f new]"
    have nn: "rename_target new = None" using Some by (rule rename_target_not_renamed)
    from Cons.prems have d: "distinct l" and fl: "f \<notin> set l" by auto
    from Cons.prems fl have "\<forall>g \<in> set l. rename_target g \<noteq> None \<longrightarrow> g \<in> dom ?fs1" by auto
    from Cons.IH [OF d this, of ?out1] obtain fs' out' where
      r: "for_each renamer_body l (?fs1, ?out1) = Inr (fs', out')"
      and o: "set ?out1 \<subseteq> set out'"
      and a: "\<forall>f \<in> set l. \<forall>new. rename_target f = Some new \<longrightarrow> Renamed f new \<in> set out'"
      and b: "\<forall>g \<in> dom fs'. rename_target g \<noteq> None \<longrightarrow> g \<in> dom ?fs1 \<and> g \<notin> set l"
      and e: "\<forall>k. (\<forall>g \<in> set l. rename_target g \<noteq> None \<longrightarrow> k \<noteq> g \<and> rename_target g \<noteq> Some k) \<longrightarrow> fs' k = ?fs1 k"
      by blast
    have "for_each renamer_body (f # l) (fs, out) = Inr (fs', out')"
      using Some c r by (simp add: renamer_body_target)
    moreover have "set out \<subseteq> set out'" using o by auto
    moreover have "\<forall>g \<in> set (f # l). \<forall>new. rename_target g = Some new \<longrightarrow> Renamed g new \<in> set out'"
      using a o Some by auto
    moreover have "\<forall>g \<in> dom fs'. rename_target g \<noteq> None \<longrightarrow> g \<in> dom fs \<and> g \<notin> set (f # l)"
    proof (intro ballI impI)
      fix g assume g: "g \<in> dom fs'" "rename_target g \<noteq> None"
      with b have g1: "g \<in> dom ?fs1" "g \<notin> set l" by auto
      from g nn have "g \<noteq> new" by auto
      with g1 show "g \<in> dom fs \<and> g \<notin> set (f # l)" by (auto split: if_splits)
    qed
    moreover have "\<forall>k. (\<forall>g \<in> set (f # l). rename_target g \<noteq> None \<longrightarrow> k \<noteq> g \<and> rename_target g \<noteq> Some k) \<longrightarrow> fs' k = fs k"
    proof (intro allI impI)
      fix k assume k: "\<forall>g \<in> set (f # l). rename_target g \<noteq> None \<longrightarrow> k \<noteq> g \<and> rename_target g \<noteq> Some k"
      then have "fs' k = ?fs1 k" using e by auto
      moreover from k Some have "k \<noteq> f" "k \<noteq> new" by auto
      ultimately show "fs' k = fs k" by simp
    qed
    ultimately show ?thesis by blast
  qed
qed

lemma for_each_append:
  "for_each body (xs @ ys) s = (case for_each body xs s of Inl e \<Rightarrow> Inl e | Inr s' \<Rightarrow> for_each body ys s')"
  by (induction xs arbitrary: s) (auto split: sum.splits)

lemma renamer_loop_skips:
  assumes "\<forall>f \<in> set l. rename_target f = None"
  shows "\<exists>out'. for_each renamer_body l (fs, out) = Inr (fs, out @ out') \<and> (\<forall>e \<in> set out'. \<exists>f. e = Skipped f)"
  using assms
proof (induction l arbitrary: out)
  case Nil
  then show ?case by simp
next
  case (Cons f l)
  let ?o = "if endswith f ''.png'' then [Skipped f] else []"
  from Cons.prems have "\<forall>g \<in> set l. rename_target g = None" by simp
  from Cons.IH [OF this, of "out @ ?o"] obtain out' where
    r: "for_each renamer_body l (fs, out @ ?o) = Inr (fs, (out @ ?o) @ out')"
    and s: "\<forall>e \<in> set out'. \<exists>f. e = Skipped f" by blast
  from Cons.prems have "rename_target f = None" by simp
  then have "for_each renamer_body (f # l) (fs, out) = Inr (fs, out @ (?o @ out'))"
    using r by (simp add: renamer_body_no_target)
  moreover have "\<forall>e \<in> set (?o @ out'). \<exists>f. e = Skipped f" using s by auto
  ultimately show ?case by blast
qed

lemma renamer_body_log_prefix:
  "renamer_body f (fs, out) = map_sum id (\<lambda>(fs', o'). (fs', out @ o')) (renamer_body f (fs, []))"
  by (auto simp: renamer_body_def Let_def split: option.splits sum.splits)

lemma renamer_log_prefix:
  "for_each renamer_body l (fs, out) =
     map_sum id (\<lambda>(fs', o'). (fs', out @ o')) (for_each renamer_body l (fs, []))"
proof (induction l arbitrary: fs out)
  case Nil
  then show ?case by simp
next
  case (Cons f l)
  show ?case
  proof (cases "renamer_body f (fs, [])")
    case (Inl e)
    then show ?thesis using renamer_body_log_prefix [of f fs out] by simp
  next
    case (Inr st)
    obtain fs' o' where st: "st = (fs', o')" by (cases st)
    have 1: "renamer_body f (fs, out) = Inr (fs', out @ o')"
      using renamer_body_log_prefix [of f fs out] Inr st by simp
    have 2: "for_each renamer_body l (fs', out @ o') =
        map_sum id (\<lambda>(fs'', o''). (fs'', (out @ o') @ o'')) (for_each renamer_body l (fs', []))"
      by (rule Cons.IH)
    have 3: "for_each renamer_body l (fs', o') =
        map_sum id (\<lambda>(fs'', o''). (fs'', o' @ o'')) (for_each renamer_body l (fs', []))"
      by (rule Cons.IH)
    show ?thesis using 1 2 3 Inr st
      by (cases "for_each renamer_body l (fs', [])") auto
  qed
qed

lemma renamer_skip_in_batch:
  assumes "rename_target f = None"
  shows "map_sum id fst (renamer fs (pre @ f # post)) = map_sum id fst (renamer fs (pre @ post))"
proof (cases "for_each renamer_body pre (fs, [])")
  case (Inl e)
  then show ?thesis by (simp add: renamer_def for_each_append)
next
  case (Inr st)
  obtain fs' o' where st: "st = (fs', o')" by (cases st)
  let ?o = "if endswith f ''.png'' then [Skipped f] else []"
  have "map_sum id fst (for_each renamer_body post (fs', o' @ ?o)) = map_sum id fst (for_each renamer_body post (fs', o'))"
    using renamer_log_prefix [of post fs' "o' @ ?o"] renamer_log_prefix [of post fs' o']
    by (cases "for_each renamer_body post (fs', [])") auto
  then show ?thesis using Inr st assms
    by (simp add: renamer_def for_each_append renamer_body_no_target)
qed

text \<open>
  Claim C1, as amended: for every file of the renamer's folder whose name ends in
  \<^verbatim>\<open>.png\<close> and whose stem reads as two integers \<open>x\<close> and \<open>y\<close> separated by \<open>_\<close>, the run
  succeeds and renames the file to \<^verbatim>\<open><id>.png\<close> with
  \<open>id = floor(y/16) * 17 + floor(x/16) + 1\<close>: the rename is reported, the old name is
  gone at the end, and unless another file of the listing is renamed to the same name the
  new name holds the file's content at the end.
\<close>

theorem renamer_renames_png_to_tile_id:
  assumes "distinct listing" and "set listing = dom fs"
    and "filename \<in> set listing" and "endswith filename ''.png''"
    and "parse_xy (fst (splitext filename)) = Some (x, y)"
  shows "\<exists>fs' out new. new = show_int (y div 16 * 17 + x div 16 + 1) @ ''.png''
           \<and> renamer fs listing = Inr (fs', out)
           \<and> Renamed filename new \<in> set out
           \<and> fs' filename = None
           \<and> ((\<forall>g \<in> set listing. g \<noteq> filename \<longrightarrow> rename_target g \<noteq> Some new) \<longrightarrow> fs' new = fs filename)"
proof -
  let ?new = "show_int (y div 16 * 17 + x div 16 + 1) @ ''.png''"
  have t: "rename_target filename = Some ?new"
    using assms(4,5) by (simp add: rename_target_def tile_id_def TILESET_WIDTH_def)
  have nn: "rename_target ?new = None" by (rule target_name_not_renamed)
  have dom: "\<forall>f \<in> set listing. rename_target f \<noteq> None \<longrightarrow> f \<in> dom fs" using assms(2) by simp
  from renamer_loop [OF assms(1) dom, of "[]"] obtain fs' out where
    r: "renamer fs listing = Inr (fs', out)"
    and a: "\<forall>f \<in> set listing. \<forall>new. rename_target f = Some new \<longrightarrow> Renamed f new \<in> set out"
    and b: "\<forall>f \<in> dom fs'. rename_target f \<noteq> None \<longrightarrow> f \<in> dom fs \<and> f \<notin> set listing"
    unfolding renamer_def by blast
  have ev: "Renamed filename ?new \<in> set out" using a assms(3) t by blast
  have gone: "fs' filename = None" using b assms(3) t by (cases "fs' filename") auto
  have final: "fs' ?new = fs filename" if nc: "\<forall>g \<in> set listing. g \<noteq> filename \<longrightarrow> rename_target g \<noteq> Some ?new"
  proof -
    from assms(3) obtain pre post where sp: "listing = pre @ filename # post"
      by (auto simp: in_set_conv_decomp)
    with assms(1) have dpre: "distinct pre" and dpost: "distinct post"
      and npre: "filename \<notin> set pre" and npost: "filename \<notin> set post" by auto
    have dompre: "\<forall>f \<in> set pre. rename_target f \<noteq> None \<longrightarrow> f \<in> dom fs" using dom sp by simp
    from renamer_loop [OF dpre dompre, of "[]"] obtain fs1 out1 where
      r1: "for_each renamer_body pre (fs, []) = Inr (fs1, out1)"
      and e1: "\<forall>k. (\<forall>g \<in> set pre. rename_target g \<noteq> None \<longrightarrow> k \<noteq> g \<and> rename_target g \<noteq> Some k) \<longrightarrow> fs1 k = fs k"
      by blast
    have "\<forall>g \<in> set pre. rename_target g \<noteq> None \<longrightarrow> filename \<noteq> g \<and> rename_target g \<noteq> Some filename"
      using npre t rename_target_not_renamed by fastforce
    with e1 have keep: "fs1 filename = fs filename" by blast
    from assms(2,3) obtain content where c: "fs filename = Some content" by auto
    let ?fs2 = "(fs1(filename := None))(?new \<mapsto> content)"
    have step: "renamer_body filename (fs1, out1) = Inr (?fs2, out1 @ [Renamed filename ?new])"
      using t keep c by (simp add: renamer_body_target)
    have dompost: "\<forall>f \<in> set post. rename_target f \<noteq> None \<longrightarrow> f \<in> dom ?fs2"
    proof (intro ballI impI)
      fix f assume f: "f \<in> set post" "rename_target f \<noteq> None"
      then have "f \<notin> set pre" "f \<noteq> filename" using assms(1) sp by auto
      moreover have "f \<in> dom fs" using f dom sp by simp
      moreover have "\<forall>g \<in> set pre. rename_target g \<noteq> None \<longrightarrow> f \<noteq> g \<and> rename_target g \<noteq> Some f"
        using \<open>f \<notin> set pre\<close> f(2) rename_target_not_renamed by fastforce
      then have "fs1 f = fs f" using e1 by blast
      ultimately show "f \<in> dom ?fs2" by auto
    qed
    from renamer_loop [OF dpost dompost, of "out1 @ [Renamed filename ?new]"] obtain fs3 out3 where
      r3: "for_each renamer_body post (?fs2, out1 @ [Renamed filename ?new]) = Inr (fs3, out3)"
      and e3: "\<forall>k. (\<forall>g \<in> set post. rename_target g \<noteq> None \<longrightarrow> k \<noteq> g \<and> rename_target g \<noteq> Some k) \<longrightarrow> fs3 k = ?fs2 k"
      by blast
    have "renamer fs listing = Inr (fs3, out3)"
      using r1 step r3 sp by (simp add: renamer_def for_each_append)
    with r have same: "fs' = fs3" by simp
    have "\<forall>g \<in> set post. rename_target g \<noteq> None \<longrightarrow> ?new \<noteq> g \<and> rename_target g \<noteq> Some ?new"
      using nc npost nn sp by auto
    with e3 have "fs3 ?new = ?fs2 ?new" by blast
    with same c show ?thesis by simp
  qed
  from r ev gone final show ?thesis by blast
qed

theorem renamer_renames_png_to_tile_id_witness:
  "\<exists>fs' out. renamer [''16_32.png'' \<mapsto> True, ''0_0.png'' \<mapsto> False] [''0_0.png'', ''16_32.png''] = Inr (fs', out)
      \<and> Renamed ''16_32.png'' ''36.png'' \<in> set out
      \<and> fs' ''16_32.png'' = None
      \<and> fs' ''36.png'' = Some True"
proof -
  let ?fs = "[''16_32.png'' \<mapsto> True, ''0_0.png'' \<mapsto> False]"
  let ?listing = "[''0_0.png'', ''16_32.png'']"
  have h1: "distinct ?listing" by simp
  have h2: "set ?listing = dom ?fs" by auto
  have h3: "''16_32.png'' \<in> set ?listing" by simp
  have h4: "endswith ''16_32.png'' ''.png''" by code_simp
  have h5: "parse_xy (fst (splitext ''16_32.png'')) = Some (16, 32)" by code_simp
  have n: "show_int (32 div 16 * 17 + 16 div 16 + 1) @ ''.png'' = ''36.png''" by code_simp
  have o: "rename_target ''0_0.png'' = Some ''1.png''" by code_simp
  from renamer_renames_png_to_tile_id [OF h1 h2 h3 h4 h5] show ?thesis
    unfolding n using o by auto
qed

text \<open>
  Claim C1 as stated quantifies over every file whose stem reads as two integers. The
  loop first tests \<^verbatim>\<open>filename.endswith(".png")\<close>: the stem of \<^verbatim>\<open>0_0.txt\<close> reads as
  \<open>(0, 0)\<close>, and the run leaves the file where it is and reports nothing.
\<close>

theorem renamer_leaves_non_png_counterexample:
  "parse_xy (fst (splitext ''0_0.txt'')) = Some (0, 0)
   \<and> renamer [''0_0.txt'' \<mapsto> True] [''0_0.txt''] = Inr ([''0_0.txt'' \<mapsto> True], [])"
proof -
  have "parse_xy (fst (splitext ''0_0.txt'')) = Some (0, 0)" by code_simp
  moreover have "rename_target ''0_0.txt'' = None" by code_simp
  then have "renamer [''0_0.txt'' \<mapsto> True] [''0_0.txt''] = Inr ([''0_0.txt'' \<mapsto> True], [])"
    by (simp add: renamer_def renamer_body_no_target endswith_def)
  ultimately show ?thesis by simp
qed

text \<open>
  Claim C9: running the renamer a second time leaves the folder as the first run left it.
  After the first run no name in the folder is one the renamer renames (the names it
  wrote have no \<open>_\<close> in their stem), so the second run, on any listing of that folder,
  only skips. This holds for every folder, also when ids collide.
\<close>

theorem renamer_second_run_changes_nothing:
  assumes "distinct listing" and "set listing = dom fs"
  shows "\<exists>fs1 out1. renamer fs listing = Inr (fs1, out1)
           \<and> (\<forall>listing2. set listing2 = dom fs1 \<longrightarrow>
                 (\<exists>out2. renamer fs1 listing2 = Inr (fs1, out2) \<and> (\<forall>e \<in> set out2. \<exists>f. e = Skipped f)))"
proof -
  have dom: "\<forall>f \<in> set listing. rename_target f \<noteq> None \<longrightarrow> f \<in> dom fs" using assms(2) by simp
  from renamer_loop [OF assms(1) dom, of "[]"] obtain fs1 out1 where
    r: "renamer fs listing = Inr (fs1, out1)"
    and b: "\<forall>f \<in> dom fs1. rename_target f \<noteq> None \<longrightarrow> f \<in> dom fs \<and> f \<notin> set listing"
    unfolding renamer_def by blast
  have none: "\<forall>f \<in> dom fs1. rename_target f = None" using b assms(2) by blast
  have "\<exists>out2. renamer fs1 listing2 = Inr (fs1, out2) \<and> (\<forall>e \<in> set out2. \<exists>f. e = Skipped f)"
    if "set listing2 = dom fs1" for listing2
  proof -
    from that none have "\<forall>f \<in> set listing2. rename_target f = None" by simp
    from renamer_loop_skips [OF this, of fs1 "[]"] show ?thesis by (simp add: renamer_def)
  qed
  with r show ?thesis by blast
qed

theorem renamer_second_run_changes_nothing_witness:
  "\<exists>fs1 out1 out2. renamer [''16_32.png'' \<mapsto> True, ''a.png'' \<mapsto> False] [''a.png'', ''16_32.png''] = Inr (fs1, out1)
      \<and> dom fs1 = {''36.png'', ''a.png''}
      \<and> renamer fs1 [''36.png'', ''a.png''] = Inr (fs1, out2)"
proof -
  let ?fs = "[''16_32.png'' \<mapsto> True, ''a.png'' \<mapsto> False]"
  let ?listing = "[''a.png'', ''16_32.png'']"
  have h1: "distinct ?listing" by simp
  have h2: "set ?listing = dom ?fs" by auto
  have a: "rename_target ''a.png'' = None" by code_simp
  have b: "rename_target ''16_32.png'' = Some ''36.png''" by code_simp
  have s1: "renamer_body ''a.png'' (?fs, []) = Inr (?fs, [Skipped ''a.png''])"
    using renamer_body_no_target [OF a, of ?fs "[]"] by (simp add: endswith_def)
  have s2: "renamer_body ''16_32.png'' (?fs, [Skipped ''a.png''])
      = Inr ((?fs(''16_32.png'' := None))(''36.png'' \<mapsto> True), [Skipped ''a.png'', Renamed ''16_32.png'' ''36.png''])"
    using renamer_body_target [OF b, of ?fs True "[Skipped ''a.png'']"] by simp
  have run: "renamer ?fs ?listing
      = Inr ((?fs(''16_32.png'' := None))(''36.png'' \<mapsto> True), [Skipped ''a.png'', Renamed ''16_32.png'' ''36.png''])"
    by (simp add: renamer_def s1 s2)
  have d: "dom ((?fs(''16_32.png'' := None))(''36.png'' \<mapsto> True)) = {''36.png'', ''a.png''}" by auto
  let ?fs1 = "(?fs(''16_32.png'' := None))(''36.png'' \<mapsto> True)"
  from renamer_second_run_changes_nothing [OF h1 h2] run
  have "\<forall>listing2. set listing2 = dom ?fs1 \<longrightarrow>
          (\<exists>out2. renamer ?fs1 listing2 = Inr (?fs1, out2) \<and> (\<forall>e \<in> set out2. \<exists>f. e = Skipped f))"
    by simp
  moreover have "set [''36.png'', ''a.png''] = dom ?fs1" using d by simp
  ultimately obtain out2 where "renamer ?fs1 [''36.png'', ''a.png''] = Inr (?fs1, out2)" by blast
  with run d show ?thesis by blast
qed

section \<open>Properties of the splitter\<close>

lemma set_py_range: "set (py_range n) = {0..<n}"
  by (auto simp: py_range_def)

lemma length_py_range: "length (py_range n) = nat n"
  by (simp add: py_range_def)

lemma distinct_py_range: "distinct (py_range n)"
  by (simp add: py_range_def)

lemma crop_tile_at:
  "0 \<le> tw \<Longrightarrow> 0 \<le> th \<Longrightarrow>
   crop tileset (x * tw, y * th, x * tw + tw, y * th + th) = Inr (tile_at tileset tw th x y)"
  by (simp add: crop_def tile_at_def)

lemma getbbox_None_iff: "getbbox im = None \<longleftrightarrow> fully_transparent im"
proof -
  have "opaque_columns im = [] \<longleftrightarrow> fully_transparent im"
    by (auto simp: opaque_columns_def filter_empty_conv list_ex_iff set_py_range fully_transparent_def in_bounds_def)
  then show ?thesis by (simp add: getbbox_def)
qed

lemma split_cell_eq:
  assumes "0 \<le> tw" and "0 \<le> th"
  shows "split_cell tileset tw th skip y x (saved, count) =
     Inr (if cell_saved tileset tw th skip (x, y)
          then (saved @ [cell_file tileset tw th (x, y)], count + 1) else (saved, count))"
  using assms by (simp add: split_cell_def Let_def crop_tile_at getbbox_None_iff cell_saved_def cell_file_def)

lemma split_row:
  assumes "0 \<le> tw" and "0 \<le> th"
  shows "for_each (split_cell tileset tw th skip y) xs (saved, count) =
     Inr (saved @ map (cell_file tileset tw th) (filter (cell_saved tileset tw th skip) (map (\<lambda>x. (x, y)) xs)),
          count + int (length (filter (cell_saved tileset tw th skip) (map (\<lambda>x. (x, y)) xs))))"
proof (induction xs arbitrary: saved count)
  case Nil
  then show ?case by simp
next
  case (Cons x xs)
  show ?case by (simp add: split_cell_eq [OF assms] Cons.IH)
qed

lemma split_rows:
  assumes "0 \<le> tw" and "0 \<le> th"
  shows "for_each (\<lambda>y. for_each (split_cell tileset tw th skip y) xs) ys (saved, count) =
     Inr (saved @ map (cell_file tileset tw th)
                    (filter (cell_saved tileset tw th skip) (concat (map (\<lambda>y. map (\<lambda>x. (x, y)) xs) ys))),
          count + int (length (filter (cell_saved tileset tw th skip) (concat (map (\<lambda>y. map (\<lambda>x. (x, y)) xs) ys)))))"
proof (induction ys arbitrary: saved count)
  case Nil
  then show ?case by simp
next
  case (Cons y ys)
  show ?case by (simp add: split_row [OF assms] Cons.IH)
qed

lemma for_each_empty_rows: "for_each (\<lambda>y. for_each (body y) []) ys s = Inr s"
  by (induction ys) simp_all

lemma grid_cells_empty: "tiles_x \<le> 0 \<or> tiles_y \<le> 0 \<Longrightarrow> grid_cells tiles_x tiles_y = []"
  by (auto simp: grid_cells_def py_range_def)

lemma split_tileset_eq:
  assumes "src image_path = Some tileset" and "tw \<noteq> 0" and "th \<noteq> 0"
  shows "split_tileset src image_path tw th skip =
     Inr (map (cell_file tileset tw th)
            (filter (cell_saved tileset tw th skip)
               (grid_cells (int (im_width tileset) div tw) (int (im_height tileset) div th))),
          int (length (filter (cell_saved tileset tw th skip)
               (grid_cells (int (im_width tileset) div tw) (int (im_height tileset) div th)))))"
proof (cases "0 < tw \<and> 0 < th")
  case True
  then have "0 \<le> tw" "0 \<le> th" by auto
  from split_rows [OF this, of tileset skip _ _ "[]" 0] show ?thesis
    using assms by (simp add: split_tileset_def Let_def grid_cells_def)
next
  case False
  with assms have neg: "tw < 0 \<or> th < 0" by auto
  have dx: "tw < 0 \<Longrightarrow> int (im_width tileset) div tw \<le> 0"
    by (simp add: div_nonneg_neg_le0)
  have dy: "th < 0 \<Longrightarrow> int (im_height tileset) div th \<le> 0"
    by (simp add: div_nonneg_neg_le0)
  from neg dx dy have e: "int (im_width tileset) div tw \<le> 0 \<or> int (im_height tileset) div th \<le> 0" by auto
  then have g: "grid_cells (int (im_width tileset) div tw) (int (im_height tileset) div th) = []"
    by (rule grid_cells_empty)
  have "for_each (\<lambda>y. for_each (split_cell tileset tw th skip y) (py_range (int (im_width tileset) div tw)))
          (py_range (int (im_height tileset) div th)) ([], 0) = Inr ([], 0)"
  proof (cases "int (im_height tileset) div th \<le> 0")
    case True
    then show ?thesis by (simp add: py_range_def)
  next
    case False
    with e have "py_range (int (im_width tileset) div tw) = []" by (simp add: py_range_def)
    then show ?thesis by (simp add: for_each_empty_rows)
  qed
  then show ?thesis using assms g by (simp add: split_tileset_def Let_def)
qed

lemma tile_filename_inj:
  assumes "tw \<noteq> 0" and "th \<noteq> 0" and "tile_filename tw th x y = tile_filename tw th x' y'"
  shows "x = x' \<and> y = y'"
proof -
  from assms(3) have "show_int (x * tw) @ ''_'' @ show_int (y * th) = show_int (x' * tw) @ ''_'' @ show_int (y' * th)"
    by (simp add: tile_filename_def)
  then have "parse_xy (show_int (x * tw) @ ''_'' @ show_int (y * th)) = parse_xy (show_int (x' * tw) @ ''_'' @ show_int (y' * th))"
    by simp
  then have "x * tw = x' * tw \<and> y * th = y' * th" using parse_xy_show [of "x * tw" "y * th"] parse_xy_show [of "x' * tw" "y' * th"] by simp
  with assms(1,2) show ?thesis by simp
qed

lemma grid_cells_product:
  "grid_cells tiles_x tiles_y = map prod.swap (List.product (py_range tiles_y) (py_range tiles_x))"
proof -
  have "concat (map (\<lambda>y. map (\<lambda>x. (x, y)) xs) ys) = map prod.swap (List.product ys xs)" for xs ys :: "int list"
    by (induction ys) simp_all
  then show ?thesis by (simp add: grid_cells_def)
qed

lemma distinct_grid_cells: "distinct (grid_cells tiles_x tiles_y)"
  by (simp add: grid_cells_product distinct_map distinct_product distinct_py_range)

lemma length_grid_cells: "length (grid_cells tiles_x tiles_y) = nat tiles_x * nat tiles_y"
  by (simp add: grid_cells_product length_py_range)

lemma set_grid_cells: "set (grid_cells tiles_x tiles_y) = {(x, y). 0 \<le> x \<and> x < tiles_x \<and> 0 \<le> y \<and> y < tiles_y}"
  by (auto simp: grid_cells_product set_py_range)

lemma distinct_saved_names:
  assumes "tw \<noteq> 0" and "th \<noteq> 0"
  shows "distinct (map fst (map (cell_file tileset tw th) (filter P (grid_cells tiles_x tiles_y))))"
proof -
  have "inj_on (\<lambda>c. fst (cell_file tileset tw th c)) (set (filter P (grid_cells tiles_x tiles_y)))"
    using tile_filename_inj [OF assms] by (auto simp: inj_on_def cell_file_def)
  then show ?thesis
    by (simp add: distinct_map distinct_grid_cells comp_def)
qed

lemma cell_in_region:
  assumes "0 < tw" and "0 \<le> x" and "x < W div tw" and "0 \<le> px" and "px < tw"
  shows "x * tw + px < W div tw * tw" and "W div tw * tw \<le> (W::int)" and "0 \<le> x * tw + px"
proof -
  from assms(3) have "x + 1 \<le> W div tw" by simp
  then have "(x + 1) * tw \<le> W div tw * tw" using assms(1) by (simp add: mult_right_mono)
  then show "x * tw + px < W div tw * tw" using assms(5) by (simp add: algebra_simps)
  show "W div tw * tw \<le> W" using assms(1)
    by (metis mult.commute pos_mod_sign add_le_cancel_left mult_div_mod_eq add.right_neutral)
  show "0 \<le> x * tw + px" using assms by simp
qed

lemma tile_at_pixel:
  assumes "0 < tw" and "0 < th" and "(x, y) \<in> set (grid_cells (int (im_width tileset) div tw) (int (im_height tileset) div th))"
    and "0 \<le> px" and "px < tw" and "0 \<le> py" and "py < th"
  shows "im_pixel (tile_at tileset tw th x y) px py = im_pixel tileset (x * tw + px) (y * th + py)"
    and "x * tw + px < int (im_width tileset) div tw * tw"
    and "y * th + py < int (im_height tileset) div th * th"
proof -
  from assms(3) have x: "0 \<le> x" "x < int (im_width tileset) div tw" and y: "0 \<le> y" "y < int (im_height tileset) div th"
    by (auto simp: set_grid_cells)
  note cx = cell_in_region [OF assms(1) x assms(4,5)]
  note cy = cell_in_region [OF assms(2) y assms(6,7)]
  from cx cy have "in_bounds tileset (x * tw + px) (y * th + py)" by (simp add: in_bounds_def)
  then show "im_pixel (tile_at tileset tw th x y) px py = im_pixel tileset (x * tw + px) (y * th + py)"
    using assms by (simp add: tile_at_def)
  show "x * tw + px < int (im_width tileset) div tw * tw" by (rule cx)
  show "y * th + py < int (im_height tileset) div th * th" by (rule cy)
qed

lemma tile_at_cong:
  assumes "0 < tw" and "0 < th"
    and "im_width t' = im_width t" and "im_height t' = im_height t"
    and "\<forall>sx sy. 0 \<le> sx \<and> sx < int (im_width t) div tw * tw \<and> 0 \<le> sy \<and> sy < int (im_height t) div th * th
           \<longrightarrow> im_pixel t' sx sy = im_pixel t sx sy"
    and "(x, y) \<in> set (grid_cells (int (im_width t) div tw) (int (im_height t) div th))"
  shows "tile_at t' tw th x y = tile_at t tw th x y"
proof -
  have "im_pixel (tile_at t' tw th x y) px py = im_pixel (tile_at t tw th x y) px py" for px py
  proof (cases "0 \<le> px \<and> px < tw \<and> 0 \<le> py \<and> py < th")
    case True
    then have p: "0 \<le> px" "px < tw" "0 \<le> py" "py < th" by auto
    from assms(6) have x: "0 \<le> x" "x < int (im_width t) div tw" and y: "0 \<le> y" "y < int (im_height t) div th"
      by (auto simp: set_grid_cells)
    note cx = cell_in_region [OF assms(1) x p(1,2)]
    note cy = cell_in_region [OF assms(2) y p(3,4)]
    from cx cy assms(5) have "im_pixel t' (x * tw + px) (y * th + py) = im_pixel t (x * tw + px) (y * th + py)" by blast
    then show ?thesis using assms(3,4) by (simp add: tile_at_def in_bounds_def)
  next
    case False
    then show ?thesis by (auto simp: tile_at_def)
  qed
  then have "im_pixel (tile_at t' tw th x y) = im_pixel (tile_at t tw th x y)" by (intro ext)
  moreover have "im_width (tile_at t' tw th x y) = im_width (tile_at t tw th x y)"
    "im_height (tile_at t' tw th x y) = im_height (tile_at t tw th x y)" by (simp_all add: tile_at_def)
  ultimately show ?thesis by simp
qed

lemma fully_transparent_tile_at:
  "fully_transparent tileset \<Longrightarrow> fully_transparent (tile_at tileset tw th x y)"
  by (auto simp: fully_transparent_def tile_at_def transparent_def)

text \<open>
  Claim C3, as amended: for a source image of size \<open>(W, H)\<close> and a tile size \<open>(tw, th)\<close>
  with \<open>tw \<ge> 1\<close> and \<open>th \<ge> 1\<close>, and \<^verbatim>\<open>skip_empty\<close> false, the splitter saves exactly
  \<open>floor(W/tw) * floor(H/th)\<close> tiles, in row-major order (\<open>y\<close> outer, \<open>x\<close> inner), the
  tile of the cell \<open>(x, y)\<close> under the name \<^verbatim>\<open><x*tw>_<y*th>.png\<close>. Every pixel of a
  saved tile is the source pixel at a coordinate left of \<open>floor(W/tw) * tw\<close> and above
  \<open>floor(H/th) * th\<close>, and a source that differs only in the trailing strips gives the
  same run: no pixel of a trailing strip appears in a tile.
\<close>

theorem splitter_grid_row_major:
  assumes "src image_path = Some tileset" and "1 \<le> tile_width" and "1 \<le> tile_height"
  shows "\<exists>saved.
      split_tileset src image_path tile_width tile_height False = Inr (saved, int (length saved))
    \<and> int (length saved) = (int (im_width tileset) div tile_width) * (int (im_height tileset) div tile_height)
    \<and> saved = concat (map (\<lambda>y. map (\<lambda>x. (show_int (x * tile_width) @ ''_'' @ show_int (y * tile_height) @ ''.png'',
                                              tile_at tileset tile_width tile_height x y))
                                    (py_range (int (im_width tileset) div tile_width)))
                         (py_range (int (im_height tileset) div tile_height)))
    \<and> (\<forall>x y px py. 0 \<le> x \<and> x < int (im_width tileset) div tile_width
           \<and> 0 \<le> y \<and> y < int (im_height tileset) div tile_height
           \<and> 0 \<le> px \<and> px < tile_width \<and> 0 \<le> py \<and> py < tile_height \<longrightarrow>
           im_pixel (tile_at tileset tile_width tile_height x y) px py
             = im_pixel tileset (x * tile_width + px) (y * tile_height + py)
           \<and> x * tile_width + px < int (im_width tileset) div tile_width * tile_width
           \<and> y * tile_height + py < int (im_height tileset) div tile_height * tile_height)
    \<and> (\<forall>tileset'. im_width tileset' = im_width tileset \<and> im_height tileset' = im_height tileset
           \<and> (\<forall>sx sy. 0 \<le> sx \<and> sx < int (im_width tileset) div tile_width * tile_width
                  \<and> 0 \<le> sy \<and> sy < int (im_height tileset) div tile_height * tile_height
                  \<longrightarrow> im_pixel tileset' sx sy = im_pixel tileset sx sy) \<longrightarrow>
           split_tileset (src(image_path \<mapsto> tileset')) image_path tile_width tile_height False
             = split_tileset src image_path tile_width tile_height False)"
proof -
  let ?tx = "int (im_width tileset) div tile_width"
  let ?ty = "int (im_height tileset) div tile_height"
  let ?saved = "map (cell_file tileset tile_width tile_height) (grid_cells ?tx ?ty)"
  from assms have nz: "tile_width \<noteq> 0" "tile_height \<noteq> 0" and pos: "0 < tile_width" "0 < tile_height" by auto
  have ns: "cell_saved t tile_width tile_height False = (\<lambda>c. True)" for t
    by (auto simp: cell_saved_def)
  have run: "split_tileset src image_path tile_width tile_height False = Inr (?saved, int (length ?saved))"
    using split_tileset_eq [of src image_path tileset tile_width tile_height False] assms(1) nz by (simp add: ns)
  have tx: "0 \<le> ?tx" and ty: "0 \<le> ?ty" using pos by (simp_all add: pos_imp_zdiv_nonneg_iff)
  have len: "int (length ?saved) = ?tx * ?ty"
    using tx ty by (simp add: length_grid_cells)
  have shape: "?saved = concat (map (\<lambda>y. map (\<lambda>x. (show_int (x * tile_width) @ ''_'' @ show_int (y * tile_height) @ ''.png'',
                                              tile_at tileset tile_width tile_height x y))
                                    (py_range ?tx)) (py_range ?ty))"
    by (simp add: grid_cells_def map_concat comp_def cell_file_def tile_filename_def)
  have pix: "\<forall>x y px py. 0 \<le> x \<and> x < ?tx \<and> 0 \<le> y \<and> y < ?ty
           \<and> 0 \<le> px \<and> px < tile_width \<and> 0 \<le> py \<and> py < tile_height \<longrightarrow>
           im_pixel (tile_at tileset tile_width tile_height x y) px py
             = im_pixel tileset (x * tile_width + px) (y * tile_height + py)
           \<and> x * tile_width + px < ?tx * tile_width
           \<and> y * tile_height + py < ?ty * tile_height"
  proof (intro allI impI)
    fix x y px py
    assume a: "0 \<le> x \<and> x < ?tx \<and> 0 \<le> y \<and> y < ?ty
           \<and> 0 \<le> px \<and> px < tile_width \<and> 0 \<le> py \<and> py < tile_height"
    then have c: "(x, y) \<in> set (grid_cells ?tx ?ty)" by (simp add: set_grid_cells)
    from a have p: "0 \<le> px" "px < tile_width" "0 \<le> py" "py < tile_height" by auto
    from tile_at_pixel [OF pos c p]
    show "im_pixel (tile_at tileset tile_width tile_height x y) px py
             = im_pixel tileset (x * tile_width + px) (y * tile_height + py)
           \<and> x * tile_width + px < ?tx * tile_width
           \<and> y * tile_height + py < ?ty * tile_height" by simp
  qed
  have indep: "split_tileset (src(image_path \<mapsto> tileset')) image_path tile_width tile_height False
             = split_tileset src image_path tile_width tile_height False"
    if h: "im_width tileset' = im_width tileset \<and> im_height tileset' = im_height tileset
           \<and> (\<forall>sx sy. 0 \<le> sx \<and> sx < ?tx * tile_width \<and> 0 \<le> sy \<and> sy < ?ty * tile_height
                  \<longrightarrow> im_pixel tileset' sx sy = im_pixel tileset sx sy)" for tileset'
  proof -
    from h have w: "im_width tileset' = im_width tileset" and hh: "im_height tileset' = im_height tileset"
      and ag: "\<forall>sx sy. 0 \<le> sx \<and> sx < ?tx * tile_width \<and> 0 \<le> sy \<and> sy < ?ty * tile_height
                  \<longrightarrow> im_pixel tileset' sx sy = im_pixel tileset sx sy" by auto
    have "(src(image_path \<mapsto> tileset')) image_path = Some tileset'" by simp
    from split_tileset_eq [of "src(image_path \<mapsto> tileset')" image_path tileset' tile_width tile_height False] nz
    have r': "split_tileset (src(image_path \<mapsto> tileset')) image_path tile_width tile_height False
        = Inr (map (cell_file tileset' tile_width tile_height) (grid_cells ?tx ?ty),
               int (length (grid_cells ?tx ?ty)))"
      by (simp add: ns w hh)
    have "map (cell_file tileset' tile_width tile_height) (grid_cells ?tx ?ty) = ?saved"
    proof (rule map_cong [OF refl])
      fix c assume c: "c \<in> set (grid_cells ?tx ?ty)"
      obtain x y where xy: "c = (x, y)" by (cases c)
      from tile_at_cong [OF pos w hh ag] c xy
      show "cell_file tileset' tile_width tile_height c = cell_file tileset tile_width tile_height c"
        by (simp add: cell_file_def)
    qed
    with r' run show ?thesis by simp
  qed
  from run len shape pix indep show ?thesis by blast
qed

theorem splitter_grid_row_major_witness:
  "\<exists>saved. split_tileset [''t.png'' \<mapsto> solid_image 5 4 (RGBA 9 9 9 255)] ''t.png'' 2 2 False = Inr (saved, 4)
     \<and> map fst saved = [''0_0.png'', ''2_0.png'', ''0_2.png'', ''2_2.png'']
     \<and> split_tileset [''t.png'' \<mapsto> putpixel (solid_image 5 4 (RGBA 9 9 9 255)) (4, 0) transparent] ''t.png'' 2 2 False
         = split_tileset [''t.png'' \<mapsto> solid_image 5 4 (RGBA 9 9 9 255)] ''t.png'' 2 2 False"
proof -
  let ?img = "solid_image 5 4 (RGBA 9 9 9 255)"
  let ?src = "[''t.png'' \<mapsto> ?img]"
  have h1: "?src ''t.png'' = Some ?img" by simp
  have h2: "(1::int) \<le> 2" by simp
  have r: "py_range 2 = [0, 1]" by code_simp
  have s: "show_int 0 = ''0''" "show_int 2 = ''2''" by code_simp+
  have u: "?src(''t.png'' \<mapsto> putpixel ?img (4, 0) transparent) = [''t.png'' \<mapsto> putpixel ?img (4, 0) transparent]"
    by simp
  from splitter_grid_row_major [of ?src "''t.png''" ?img 2 2] h1 h2 show ?thesis
    unfolding u by (simp add: solid_image_def putpixel_def r s)
qed

text \<open>
  Claim C3 as stated covers every tile size. The command line takes any integer: for a
  32 by 32 source and the tile size \<open>(-16, -16)\<close> both loop bounds are \<open>-2\<close>, the loops
  do not run and nothing is saved, while \<open>floor(W/tw) * floor(H/th)\<close> is 4.
\<close>

theorem splitter_negative_tile_size_counterexample:
  "split_tileset [''t.png'' \<mapsto> solid_image 32 32 transparent] ''t.png'' (- 16) (- 16) False = Inr ([], 0)
   \<and> (int (im_width (solid_image 32 32 transparent)) div (- 16))
       * (int (im_height (solid_image 32 32 transparent)) div (- 16)) = 4"
  by (simp add: split_tileset_def solid_image_def py_range_def)

text \<open>
  Claim C4: with \<^verbatim>\<open>skip_empty\<close> true, the splitter discards the tile of a cell exactly
  when every pixel of that tile has alpha 0, the test \<^verbatim>\<open>getbbox() is None\<close> being
  that property of the whole tile; so an all-transparent source gives no saved tile.
  A tile width or height of 0 raises before any tile is cut.
\<close>

theorem splitter_skip_empty_discards_transparent:
  assumes "src image_path = Some tileset"
  shows "(tile_width = 0 \<or> tile_height = 0 \<longrightarrow>
            split_tileset src image_path tile_width tile_height True = Inl ZeroDivisionError)
       \<and> (tile_width \<noteq> 0 \<and> tile_height \<noteq> 0 \<longrightarrow>
            (\<exists>saved. split_tileset src image_path tile_width tile_height True = Inr (saved, int (length saved))
               \<and> (\<forall>x y. 0 \<le> x \<and> x < int (im_width tileset) div tile_width
                        \<and> 0 \<le> y \<and> y < int (im_height tileset) div tile_height \<longrightarrow>
                     (tile_filename tile_width tile_height x y \<in> fst ` set saved
                        \<longleftrightarrow> \<not> fully_transparent (tile_at tileset tile_width tile_height x y))
                   \<and> ((tile_filename tile_width tile_height x y, tile_at tileset tile_width tile_height x y) \<in> set saved
                        \<longleftrightarrow> \<not> fully_transparent (tile_at tileset tile_width tile_height x y)))
               \<and> (fully_transparent tileset \<longrightarrow> saved = [])))
       \<and> (\<forall>tile. getbbox tile = None \<longleftrightarrow> fully_transparent tile)"
proof -
  let ?tx = "int (im_width tileset) div tile_width"
  let ?ty = "int (im_height tileset) div tile_height"
  let ?cells = "filter (cell_saved tileset tile_width tile_height True) (grid_cells ?tx ?ty)"
  let ?saved = "map (cell_file tileset tile_width tile_height) ?cells"
  have zero: "split_tileset src image_path tile_width tile_height True = Inl ZeroDivisionError"
    if "tile_width = 0 \<or> tile_height = 0"
    using that assms by (auto simp: split_tileset_def Let_def)
  have nonzero: "\<exists>saved. split_tileset src image_path tile_width tile_height True = Inr (saved, int (length saved))
               \<and> (\<forall>x y. 0 \<le> x \<and> x < ?tx \<and> 0 \<le> y \<and> y < ?ty \<longrightarrow>
                     (tile_filename tile_width tile_height x y \<in> fst ` set saved
                        \<longleftrightarrow> \<not> fully_transparent (tile_at tileset tile_width tile_height x y))
                   \<and> ((tile_filename tile_width tile_height x y, tile_at tileset tile_width tile_height x y) \<in> set saved
                        \<longleftrightarrow> \<not> fully_transparent (tile_at tileset tile_width tile_height x y)))
               \<and> (fully_transparent tileset \<longrightarrow> saved = [])"
    if nz: "tile_width \<noteq> 0 \<and> tile_height \<noteq> 0"
  proof -
    from nz have nz1: "tile_width \<noteq> 0" and nz2: "tile_height \<noteq> 0" by auto
    have run: "split_tileset src image_path tile_width tile_height True = Inr (?saved, int (length ?saved))"
      using split_tileset_eq [of src image_path tileset tile_width tile_height True] assms nz by simp
    have iff: "(tile_filename tile_width tile_height x y \<in> fst ` set ?saved
                        \<longleftrightarrow> \<not> fully_transparent (tile_at tileset tile_width tile_height x y))
                   \<and> ((tile_filename tile_width tile_height x y, tile_at tileset tile_width tile_height x y) \<in> set ?saved
                        \<longleftrightarrow> \<not> fully_transparent (tile_at tileset tile_width tile_height x y))"
      if c: "0 \<le> x \<and> x < ?tx \<and> 0 \<le> y \<and> y < ?ty" for x y
    proof -
      from c have g: "(x, y) \<in> set (grid_cells ?tx ?ty)" by (simp add: set_grid_cells)
      have "fst \<circ> cell_file tileset tile_width tile_height = (\<lambda>(x, y). tile_filename tile_width tile_height x y)"
        by (auto simp: cell_file_def fun_eq_iff)
      then have names: "fst ` set ?saved = (\<lambda>(x, y). tile_filename tile_width tile_height x y) ` set ?cells"
        by (simp add: image_comp)
      have "tile_filename tile_width tile_height x y \<in> fst ` set ?saved \<longleftrightarrow> (x, y) \<in> set ?cells"
      proof
        assume "tile_filename tile_width tile_height x y \<in> fst ` set ?saved"
        with names obtain x' y' where c': "(x', y') \<in> set ?cells"
          and e: "tile_filename tile_width tile_height x y = tile_filename tile_width tile_height x' y'" by auto
        from tile_filename_inj [OF nz1 nz2 e] c' show "(x, y) \<in> set ?cells" by simp
      next
        assume "(x, y) \<in> set ?cells"
        then show "tile_filename tile_width tile_height x y \<in> fst ` set ?saved"
          unfolding names by force
      qed
      moreover have "(tile_filename tile_width tile_height x y, tile_at tileset tile_width tile_height x y) \<in> set ?saved
          \<longleftrightarrow> (x, y) \<in> set ?cells"
      proof
        assume "(tile_filename tile_width tile_height x y, tile_at tileset tile_width tile_height x y) \<in> set ?saved"
        then obtain x' y' where c': "(x', y') \<in> set ?cells"
          and e: "tile_filename tile_width tile_height x y = tile_filename tile_width tile_height x' y'"
          by (auto simp: cell_file_def)
        from tile_filename_inj [OF nz1 nz2 e] c' show "(x, y) \<in> set ?cells" by simp
      next
        assume "(x, y) \<in> set ?cells"
        then show "(tile_filename tile_width tile_height x y, tile_at tileset tile_width tile_height x y) \<in> set ?saved"
          by (force simp: cell_file_def)
      qed
      moreover have "(x, y) \<in> set ?cells \<longleftrightarrow> \<not> fully_transparent (tile_at tileset tile_width tile_height x y)"
        using g by (simp add: cell_saved_def)
      ultimately show ?thesis by simp
    qed
    have empty: "?saved = []" if "fully_transparent tileset"
      using fully_transparent_tile_at [OF that] by (simp add: filter_empty_conv cell_saved_def split: prod.splits)
    from run iff empty show ?thesis by blast
  qed
  from zero nonzero getbbox_None_iff show ?thesis by blast
qed

theorem splitter_skip_empty_discards_transparent_witness:
  "\<exists>saved. split_tileset [''t.png'' \<mapsto> putpixel (solid_image 2 1 transparent) (1, 0) (RGBA 0 0 0 1)] ''t.png'' 1 1 True = Inr (saved, int (length saved))
     \<and> ''1_0.png'' \<in> fst ` set saved \<and> ''0_0.png'' \<notin> fst ` set saved"
proof -
  let ?img = "putpixel (solid_image 2 1 transparent) (1, 0) (RGBA 0 0 0 1)"
  let ?src = "[''t.png'' \<mapsto> ?img]"
  have h1: "?src ''t.png'' = Some ?img" by simp
  have n: "tile_filename 1 1 1 0 = ''1_0.png''" "tile_filename 1 1 0 0 = ''0_0.png''" by code_simp+
  have t0: "fully_transparent (tile_at ?img 1 1 0 0)"
    by (simp add: fully_transparent_def tile_at_def putpixel_def solid_image_def in_bounds_def transparent_def)
  have t1: "\<not> fully_transparent (tile_at ?img 1 1 1 0)"
    by (auto simp: fully_transparent_def tile_at_def putpixel_def solid_image_def in_bounds_def intro!: exI [of _ 0])
  from splitter_skip_empty_discards_transparent [of ?src "''t.png''" ?img 1 1] h1 obtain saved where
    r: "split_tileset ?src ''t.png'' 1 1 True = Inr (saved, int (length saved))"
    and i: "\<forall>x y. 0 \<le> x \<and> x < int (im_width ?img) div 1 \<and> 0 \<le> y \<and> y < int (im_height ?img) div 1 \<longrightarrow>
                     (tile_filename 1 1 x y \<in> fst ` set saved \<longleftrightarrow> \<not> fully_transparent (tile_at ?img 1 1 x y))
                   \<and> ((tile_filename 1 1 x y, tile_at ?img 1 1 x y) \<in> set saved \<longleftrightarrow> \<not> fully_transparent (tile_at ?img 1 1 x y))"
    by auto
  have d: "int (im_width ?img) div 1 = 2" "int (im_height ?img) div 1 = 1" by (simp_all add: putpixel_def solid_image_def)
  from i [rule_format, of 1 0] i [rule_format, of 0 0] t0 t1 n d
  have "''1_0.png'' \<in> fst ` set saved \<and> ''0_0.png'' \<notin> fst ` set saved" by simp
  with r show ?thesis by blast
qed

text \<open>
  Claim C10: with tile width and height at least 1, the map from a grid cell \<open>(x, y)\<close> to
  its file name \<^verbatim>\<open><x*tile_width>_<y*tile_height>.png\<close> is injective on the cells of a
  grid, so the names a run saves are pairwise distinct and no saved tile overwrites
  another of the same run.
\<close>

theorem splitter_filenames_injective:
  assumes "1 \<le> tile_width" and "1 \<le> tile_height"
  shows "inj_on (\<lambda>(x, y). tile_filename tile_width tile_height x y)
           {(x, y). 0 \<le> x \<and> x < tiles_x \<and> 0 \<le> y \<and> y < tiles_y}
       \<and> (\<forall>src image_path skip_empty saved count.
            split_tileset src image_path tile_width tile_height skip_empty = Inr (saved, count)
              \<longrightarrow> distinct (map fst saved))"
proof -
  from assms have nz: "tile_width \<noteq> 0" "tile_height \<noteq> 0" by auto
  have "inj_on (\<lambda>(x, y). tile_filename tile_width tile_height x y)
           {(x, y). 0 \<le> x \<and> x < tiles_x \<and> 0 \<le> y \<and> y < tiles_y}"
    using tile_filename_inj [OF nz] by (auto simp: inj_on_def)
  moreover have "distinct (map fst saved)"
    if r: "split_tileset src image_path tile_width tile_height skip_empty = Inr (saved, count)"
    for src image_path skip_empty saved count
  proof (cases "src image_path")
    case None
    with r show ?thesis by (simp add: split_tileset_def)
  next
    case (Some tileset)
    from split_tileset_eq [of src image_path tileset tile_width tile_height skip_empty] Some nz r
    have "saved = map (cell_file tileset tile_width tile_height)
            (filter (cell_saved tileset tile_width tile_height skip_empty)
               (grid_cells (int (im_width tileset) div tile_width) (int (im_height tileset) div tile_height)))"
      by simp
    then show ?thesis using distinct_saved_names [OF nz] by simp
  qed
  ultimately show ?thesis by blast
qed

theorem splitter_filenames_injective_witness:
  "tile_filename 16 16 1 0 \<noteq> tile_filename 16 16 0 1
   \<and> (\<exists>saved count. split_tileset [''t.png'' \<mapsto> solid_image 5 4 (RGBA 9 9 9 255)] ''t.png'' 2 2 False = Inr (saved, count)
         \<and> distinct (map fst saved))"
proof -
  have h16: "(1::int) \<le> 16" and h2: "(1::int) \<le> 2" by simp_all
  let ?S = "{(x, y). 0 \<le> x \<and> x < (10::int) \<and> 0 \<le> y \<and> y < (10::int)}"
  from splitter_filenames_injective [OF h16 h16, of 10 10]
  have inj: "inj_on (\<lambda>(x, y). tile_filename 16 16 x y) ?S" by (rule conjunct1)
  have m1: "(1, 0) \<in> ?S" and m2: "(0, 1) \<in> ?S" by simp_all
  have a: "tile_filename 16 16 1 0 \<noteq> tile_filename 16 16 0 1"
  proof
    assume "tile_filename 16 16 1 0 = tile_filename 16 16 0 1"
    then have "(\<lambda>(x, y). tile_filename 16 16 x y) (1, 0) = (\<lambda>(x, y). tile_filename 16 16 x y) (0, 1)" by simp
    from inj_onD [OF inj this m1 m2] show False by simp
  qed
  let ?src = "[''t.png'' \<mapsto> solid_image 5 4 (RGBA 9 9 9 255)]"
  have src: "?src ''t.png'' = Some (solid_image 5 4 (RGBA 9 9 9 255))" by simp
  have nz: "(2::int) \<noteq> 0" by simp
  note e = split_tileset_eq [of ?src "''t.png''" "solid_image 5 4 (RGBA 9 9 9 255)" 2 2 False, OF src nz nz]
  have "\<exists>saved count. split_tileset ?src ''t.png'' 2 2 False = Inr (saved, count)"
    by (intro exI) (rule e)
  then obtain saved count where r: "split_tileset ?src ''t.png'' 2 2 False = Inr (saved, count)" by blast
  from splitter_filenames_injective [OF h2 h2] r have "distinct (map fst saved)" by blast
  with a r show ?thesis by blast
qed

section \<open>Properties of pasting\<close>

lemma paste_paste_with: "paste dst src box = paste_with (\<lambda>d s. s) dst src box"
  by (simp add: paste_def paste_with_def)

lemma paste_with_bounds:
  "in_bounds (paste_with combine dst src box) px py = in_bounds dst px py"
  by (simp add: paste_with_def in_bounds_def split: prod.splits)

lemma paste_with_size:
  "im_width (paste_with combine dst src box) = im_width dst"
  "im_height (paste_with combine dst src box) = im_height dst"
  by (simp_all add: paste_with_def split: prod.splits)

lemma paste_with_pixel:
  "im_pixel (paste_with combine dst src box) px py =
     (if in_bounds dst px py \<and> covers src box px py
      then combine (im_pixel dst px py) (im_pixel src (px - fst box) (py - snd box))
      else im_pixel dst px py)"
  by (simp add: paste_with_def covers_def split: prod.splits)

lemma foldl_paste_with_bounds:
  "in_bounds (foldl (\<lambda>im k. paste_with combine im (src k) (org k)) canvas ks) px py = in_bounds canvas px py"
  by (induction ks arbitrary: canvas) (simp_all add: paste_with_bounds)

lemma foldl_paste_with_size:
  "im_width (foldl (\<lambda>im k. paste_with combine im (src k) (org k)) canvas ks) = im_width canvas"
  "im_height (foldl (\<lambda>im k. paste_with combine im (src k) (org k)) canvas ks) = im_height canvas"
  by (induction ks arbitrary: canvas) (simp_all add: paste_with_size)

lemma foldl_paste_untouched:
  "\<forall>k \<in> set ks. \<not> covers (src k) (org k) px py \<Longrightarrow>
   im_pixel (foldl (\<lambda>im k. paste_with combine im (src k) (org k)) canvas ks) px py = im_pixel canvas px py"
  by (induction ks arbitrary: canvas) (simp_all add: paste_with_pixel)

lemma foldl_paste_once:
  assumes "distinct ks" and "k0 \<in> set ks" and "covers (src k0) (org k0) px py"
    and "\<forall>k \<in> set ks. covers (src k) (org k) px py \<longrightarrow> k = k0"
    and "in_bounds canvas px py"
  shows "im_pixel (foldl (\<lambda>im k. paste_with combine im (src k) (org k)) canvas ks) px py
           = combine (im_pixel canvas px py) (im_pixel (src k0) (px - fst (org k0)) (py - snd (org k0)))"
  using assms
proof (induction ks arbitrary: canvas)
  case Nil
  then show ?case by simp
next
  case (Cons k ks)
  let ?c1 = "paste_with combine canvas (src k) (org k)"
  have step: "foldl (\<lambda>im k. paste_with combine im (src k) (org k)) canvas (k # ks)
      = foldl (\<lambda>im k. paste_with combine im (src k) (org k)) ?c1 ks" by simp
  show ?case
  proof (cases "k = k0")
    case True
    from Cons.prems(1) True have "k0 \<notin> set ks" by simp
    with Cons.prems(4) have "\<forall>k \<in> set ks. \<not> covers (src k) (org k) px py" by fastforce
    then have "im_pixel (foldl (\<lambda>im k. paste_with combine im (src k) (org k)) ?c1 ks) px py = im_pixel ?c1 px py"
      by (rule foldl_paste_untouched)
    also have "im_pixel ?c1 px py = combine (im_pixel canvas px py) (im_pixel (src k0) (px - fst (org k0)) (py - snd (org k0)))"
      unfolding True using Cons.prems(3,5) by (simp add: paste_with_pixel)
    finally show ?thesis unfolding step .
  next
    case False
    from Cons.prems(4) False have nk: "\<not> covers (src k) (org k) px py" by fastforce
    from Cons.prems(2) False have k0: "k0 \<in> set ks" by simp
    from Cons.prems(1) have d: "distinct ks" by simp
    from Cons.prems(4) have u: "\<forall>k \<in> set ks. covers (src k) (org k) px py \<longrightarrow> k = k0" by simp
    have b: "in_bounds ?c1 px py" using Cons.prems(5) by (simp add: paste_with_bounds)
    have "im_pixel (foldl (\<lambda>im k. paste_with combine im (src k) (org k)) ?c1 ks) px py
        = combine (im_pixel ?c1 px py) (im_pixel (src k0) (px - fst (org k0)) (py - snd (org k0)))"
      by (rule Cons.IH [OF d k0 Cons.prems(3) u b])
    also have "im_pixel ?c1 px py = im_pixel canvas px py" using nk by (simp add: paste_with_pixel)
    finally show ?thesis unfolding step .
  qed
qed

lemma in_cell_iff:
  assumes "0 < ts"
  shows "(0 \<le> a - c * ts \<and> a - c * ts < ts) \<longleftrightarrow> a div ts = (c::int)"
proof
  assume "0 \<le> a - c * ts \<and> a - c * ts < ts"
  then have "(a - c * ts) div ts = 0" by (simp add: div_pos_pos_trivial)
  moreover have "((a - c * ts) + c * ts) div ts = c + (a - c * ts) div ts"
    using assms by (intro div_mult_self1) simp
  ultimately show "a div ts = c" by simp
next
  assume "a div ts = c"
  then have "a - c * ts = a mod ts" using minus_div_mult_eq_mod [of a ts] by simp
  then show "0 \<le> a - c * ts \<and> a - c * ts < ts" using assms by simp
qed

lemma covers_square:
  assumes "im_width src = nat ts" and "im_height src = nat ts" and "0 < ts"
  shows "covers src (cx * ts, cy * ts) px py \<longleftrightarrow> px div ts = cx \<and> py div ts = cy"
proof -
  have "covers src (cx * ts, cy * ts) px py \<longleftrightarrow>
      (0 \<le> px - cx * ts \<and> px - cx * ts < ts) \<and> (0 \<le> py - cy * ts \<and> py - cy * ts < ts)"
    using assms by (auto simp: covers_def in_bounds_def)
  then show ?thesis
    by (simp only: in_cell_iff [OF assms(3)])
qed

lemma cell_offset_div:
  assumes "0 < ts" and "0 \<le> d" and "d < ts"
  shows "(c * ts + d) div ts = (c::int)" and "(c * ts + d) mod ts = d"
proof -
  have "0 \<le> (c * ts + d) - c * ts \<and> (c * ts + d) - c * ts < ts" using assms by simp
  then show 1: "(c * ts + d) div ts = c" by (simp only: in_cell_iff [OF assms(1)])
  show "(c * ts + d) mod ts = d" using assms by simp
qed

section \<open>Properties of the atlas packer\<close>

lemma sorted_files_error:
  assumes "f \<in> set listing" and "is_png f" and "stem_int f = None"
  shows "sorted_files listing = Inl ValueError"
proof -
  from assms have "list_ex (\<lambda>f. stem_int f = None) (filter is_png listing)"
    by (auto simp: list_ex_iff)
  then show ?thesis by (simp add: sorted_files_def)
qed

lemma sort_key_unique:
  assumes "distinct xs" and "distinct ys" and "set xs = set ys" and "inj_on k (set xs)"
  shows "sort_key k xs = sort_key k ys"
proof -
  have 1: "inj_on k (set (sort_key k xs) \<union> set (sort_key k ys))" using assms(3,4) by simp
  have 2: "sorted (map k (sort_key k xs))" "sorted (map k (sort_key k ys))" by simp_all
  have 3: "distinct (map k (sort_key k xs))" using assms(1,4) by (simp add: distinct_map)
  have 4: "distinct (map k (sort_key k ys))" using assms(2,3,4) by (simp add: distinct_map)
  have 5: "set (sort_key k xs) = set (sort_key k ys)" using assms(3) by simp
  from 1 2(1) 3 2(2) 4 5 show ?thesis by (rule map_sorted_distinct_set_unique)
qed

lemma sorted_files_listing_order:
  assumes "distinct l1" and "distinct l2" and "set l1 = set l2"
    and "\<forall>f \<in> set l1. \<forall>g \<in> set l1. is_png f \<longrightarrow> is_png g \<longrightarrow> stem_int f = stem_int g
           \<longrightarrow> stem_int f \<noteq> None \<longrightarrow> f = g"
  shows "sorted_files l1 = sorted_files l2"
proof (cases "list_ex (\<lambda>f. stem_int f = None) (filter is_png l1)")
  case True
  moreover from True assms(3) have "list_ex (\<lambda>f. stem_int f = None) (filter is_png l2)"
    by (auto simp: list_ex_iff)
  ultimately show ?thesis by (simp add: sorted_files_def)
next
  case False
  then have some: "\<forall>f \<in> set (filter is_png l1). stem_int f \<noteq> None" by (auto simp: list_ex_iff)
  from False assms(3) have n2: "\<not> list_ex (\<lambda>f. stem_int f = None) (filter is_png l2)"
    by (auto simp: list_ex_iff)
  have "inj_on (\<lambda>f. the (stem_int f)) (set (filter is_png l1))"
  proof (rule inj_onI)
    fix f g assume f: "f \<in> set (filter is_png l1)" and g: "g \<in> set (filter is_png l1)"
      and e: "the (stem_int f) = the (stem_int g)"
    from some f have sf: "stem_int f \<noteq> None" by blast
    from some g have sg: "stem_int g \<noteq> None" by blast
    from sf sg e have "stem_int f = stem_int g" by auto
    moreover from f g have "f \<in> set l1" "g \<in> set l1" "is_png f" "is_png g" by auto
    ultimately show "f = g" using assms(4) sf by blast
  qed
  moreover have "distinct (filter is_png l1)" "distinct (filter is_png l2)" using assms(1,2) by simp_all
  moreover have "set (filter is_png l1) = set (filter is_png l2)" using assms(3) by simp
  ultimately have "sort_key (\<lambda>f. the (stem_int f)) (filter is_png l1) = sort_key (\<lambda>f. the (stem_int f)) (filter is_png l2)"
    by (intro sort_key_unique)
  with False n2 show ?thesis by (simp add: sorted_files_def)
qed

lemma py_enumerate_snoc: "py_enumerate (xs @ [x]) = py_enumerate xs @ [(int (length xs), x)]"
  by (simp add: py_enumerate_def)

lemma pack_body_eq:
  "fs f = Some img \<Longrightarrow>
   pack_body tile_size atlas_cols fs (int i, f) (im, m) =
     Inr (paste im img (cell_origin tile_size atlas_cols i),
          dict_set m (manifest_key f) (cell_rect tile_size atlas_cols i))"
  by (simp add: pack_body_def Let_def cell_origin_def manifest_key_def cell_rect_def)

lemma pack_loop:
  assumes "\<forall>f \<in> set files. fs f \<noteq> None"
  shows "for_each (pack_body tile_size atlas_cols fs) (py_enumerate files) (canvas, m0) =
     Inr (foldl (\<lambda>im i. paste im (the (fs (files ! i))) (cell_origin tile_size atlas_cols i)) canvas [0..<length files],
          foldl (\<lambda>m i. dict_set m (manifest_key (files ! i)) (cell_rect tile_size atlas_cols i))
                m0 [0..<length files])"
  using assms
proof (induction files rule: rev_induct)
  case Nil
  then show ?case by (simp add: py_enumerate_def)
next
  case (snoc f files)
  then have ih: "for_each (pack_body tile_size atlas_cols fs) (py_enumerate files) (canvas, m0) =
     Inr (foldl (\<lambda>im i. paste im (the (fs (files ! i))) (cell_origin tile_size atlas_cols i)) canvas [0..<length files],
          foldl (\<lambda>m i. dict_set m (manifest_key (files ! i)) (cell_rect tile_size atlas_cols i))
                m0 [0..<length files])"
    by simp
  from snoc.prems obtain img where img: "fs f = Some img" by auto
  have a: "foldl (\<lambda>im i. paste im (the (fs ((files @ [f]) ! i))) (cell_origin tile_size atlas_cols i)) canvas [0..<length files]
      = foldl (\<lambda>im i. paste im (the (fs (files ! i))) (cell_origin tile_size atlas_cols i)) canvas [0..<length files]"
    by (rule foldl_cong) (simp_all add: nth_append)
  have b: "foldl (\<lambda>m i. dict_set m (manifest_key ((files @ [f]) ! i)) (cell_rect tile_size atlas_cols i))
                m0 [0..<length files]
      = foldl (\<lambda>m i. dict_set m (manifest_key (files ! i)) (cell_rect tile_size atlas_cols i))
                m0 [0..<length files]"
    by (rule foldl_cong) (simp_all add: nth_append)
  show ?case
    using ih img
    by (simp add: py_enumerate_snoc for_each_append pack_body_eq a b)
qed

lemma map_of_dict_set: "map_of (dict_set m k v) = (map_of m)(k \<mapsto> v)"
  by (induction m) (auto simp: fun_eq_iff)

lemma manifest_lookup:
  assumes "i < n" and "\<forall>j. i < j \<and> j < n \<longrightarrow> key j \<noteq> key i"
  shows "map_of (foldl (\<lambda>m j. dict_set m (key j) (val j)) m0 [0..<n]) (key i) = Some (val i)"
  using assms
proof (induction n)
  case 0
  then show ?case by simp
next
  case (Suc n)
  show ?case
  proof (cases "i = n")
    case True
    then show ?thesis by (simp add: map_of_dict_set)
  next
    case False
    with Suc.prems have "i < n" and "\<forall>j. i < j \<and> j < n \<longrightarrow> key j \<noteq> key i" and "key n \<noteq> key i" by auto
    with Suc.IH show ?thesis by (simp add: map_of_dict_set)
  qed
qed

lemma paste_size: "im_width (paste dst src box) = im_width dst" "im_height (paste dst src box) = im_height dst"
  by (simp_all add: paste_def split: prod.splits)

lemma foldl_paste_size:
  "im_width (foldl (\<lambda>im i. paste im (src i) (org i)) canvas is) = im_width canvas"
  "im_height (foldl (\<lambda>im i. paste im (src i) (org i)) canvas is) = im_height canvas"
  by (induction "is" arbitrary: canvas) (simp_all add: paste_size)

lemma ceiling_div_int:
  assumes "0 < c"
  shows "\<lceil>real_of_int n / real_of_int c\<rceil> = (n + c - 1) div c"
proof -
  have "\<lceil>real_of_int n / real_of_int c\<rceil> = - (- n div c)" by (rule ceiling_divide_eq_div)
  also have "\<dots> = (if n mod c = 0 then n div c else n div c + 1)"
    using assms by (simp add: zdiv_zminus1_eq_if)
  also have "\<dots> = (n + c - 1) div c"
  proof -
    have n: "n + c - 1 = (n div c) * c + (n mod c + c - 1)" by (simp add: algebra_simps)
    have r: "0 \<le> n mod c" "n mod c < c" using assms by simp_all
    have "(n mod c + c - 1) div c = (if n mod c = 0 then 0 else 1)"
    proof (cases "n mod c = 0")
      case True
      then show ?thesis using assms by (simp add: div_pos_pos_trivial)
    next
      case False
      with r have b: "0 \<le> n mod c - 1" "n mod c - 1 < c" by auto
      have e: "n mod c + c - 1 = (n mod c - 1) + c" by simp
      have "(n mod c - 1 + c) div c = (n mod c - 1) div c + 1"
        using assms by (intro div_add_self2) simp
      moreover have "(n mod c - 1) div c = 0" using b by (rule div_pos_pos_trivial)
      ultimately have "(n mod c + c - 1) div c = 1" by (simp only: e)
      then show ?thesis using False by simp
    qed
    moreover have "((n div c) * c + (n mod c + c - 1)) div c = n div c + (n mod c + c - 1) div c"
      using assms div_mult_self3 [of c "n mod c + c - 1" "n div c"] by (simp add: add.commute)
    ultimately have "(n + c - 1) div c = n div c + (if n mod c = 0 then 0 else 1)"
      by (simp only: n)
    then show ?thesis by simp
  qed
  finally show ?thesis .
qed

lemma int_mult_ge1:
  assumes "1 \<le> a" and "1 \<le> b"
  shows "1 \<le> a * (b::int)"
proof -
  have "1 * 1 \<le> a * b" using assms by (intro mult_mono) simp_all
  then show ?thesis by simp
qed

lemma ceiling_div_pos:
  assumes "1 \<le> c" and "1 \<le> n"
  shows "1 \<le> \<lceil>real_of_int n / real_of_int c\<rceil>"
proof -
  have "\<lceil>real_of_int n / real_of_int c\<rceil> = (n + c - 1) div c" using assms(1) by (intro ceiling_div_int) simp
  moreover have "c div c \<le> (n + c - 1) div c" using assms by (intro zdiv_mono1) simp_all
  moreover have "c div c = 1" using assms(1) by simp
  ultimately show ?thesis by simp
qed

lemma sorted_files_sorted:
  assumes "sorted_files listing = Inr files"
  shows "sorted (map (\<lambda>f. the (stem_int f)) files)"
    and "set files = {f \<in> set listing. is_png f}"
    and "length files = length (filter is_png listing)"
    and "\<forall>f \<in> set files. stem_int f \<noteq> None"
    and "\<forall>k. filter (\<lambda>f. the (stem_int f) = k) files = filter (\<lambda>f. the (stem_int f) = k) (filter is_png listing)"
    and "distinct listing \<longrightarrow> distinct files"
proof -
  from assms have n: "\<not> list_ex (\<lambda>f. stem_int f = None) (filter is_png listing)"
    and f: "files = sort_key (\<lambda>f. the (stem_int f)) (filter is_png listing)"
    by (auto simp: sorted_files_def Let_def split: if_splits)
  show "sorted (map (\<lambda>f. the (stem_int f)) files)" unfolding f by (rule sorted_sort_key)
  show "set files = {f \<in> set listing. is_png f}" unfolding f by auto
  show "length files = length (filter is_png listing)" unfolding f by simp
  show "\<forall>f \<in> set files. stem_int f \<noteq> None" using n unfolding f by (auto simp: list_ex_iff)
  show "\<forall>k. filter (\<lambda>f. the (stem_int f) = k) files = filter (\<lambda>f. the (stem_int f) = k) (filter is_png listing)"
    unfolding f by (simp add: sort_key_stable)
  show "distinct listing \<longrightarrow> distinct files" unfolding f by simp
qed

lemma pack_eq:
  assumes "sorted_files listing = Inr files" and "\<forall>f \<in> set files. fs f \<noteq> None"
    and "1 \<le> atlas_cols" and "1 \<le> tile_size" and "files \<noteq> []"
  shows "pack tile_size atlas_cols fs listing =
     Inr \<lparr>atlas = foldl (\<lambda>im i. paste im (the (fs (files ! i))) (cell_origin tile_size atlas_cols i))
                      \<lparr>im_width = nat (atlas_cols * tile_size),
                       im_height = nat (\<lceil>real_of_int (int (length files)) / real_of_int atlas_cols\<rceil> * tile_size),
                       im_pixel = (\<lambda>px py. transparent)\<rparr> [0..<length files],
          manifest = foldl (\<lambda>m i. dict_set m (manifest_key (files ! i)) (cell_rect tile_size atlas_cols i)) [] [0..<length files]\<rparr>"
proof -
  let ?rows = "\<lceil>real_of_int (int (length files)) / real_of_int atlas_cols\<rceil>"
  let ?canvas = "\<lparr>im_width = nat (atlas_cols * tile_size), im_height = nat (?rows * tile_size),
                  im_pixel = (\<lambda>px py. transparent)\<rparr>"
  let ?atlas = "foldl (\<lambda>im i. paste im (the (fs (files ! i))) (cell_origin tile_size atlas_cols i)) ?canvas [0..<length files]"
  from assms(5) have "1 \<le> int (length files)" by (cases files) simp_all
  with assms(3) have r: "1 \<le> ?rows" by (rule ceiling_div_pos)
  have w1: "1 \<le> atlas_cols * tile_size" using assms(3,4) by (rule int_mult_ge1)
  have h1: "1 \<le> ?rows * tile_size" using r assms(4) by (rule int_mult_ge1)
  have new: "Image_new (atlas_cols * tile_size) (?rows * tile_size) = Inr ?canvas"
    using w1 h1 by (simp add: Image_new_def not_less)
  have save: "Image_save ?atlas = Inr ()"
    using w1 h1 by (simp add: Image_save_def foldl_paste_size)
  show ?thesis
    using assms(1,3) new pack_loop [OF assms(2)] save
    by (simp add: pack_def Let_def)
qed

lemma main_without_png_raises:
  assumes "filter is_png listing = []"
  shows "main fs listing = Inl SaveError"
proof -
  have "sorted_files listing = Inr []" using assms by (simp add: sorted_files_def)
  then show ?thesis
    by (simp add: main_def pack_def TILE_SIZE_def ATLAS_COLS_def Image_new_def py_enumerate_def Image_save_def)
qed

lemma dict_set_fresh: "k \<notin> fst ` set m \<Longrightarrow> dict_set m k v = m @ [(k, v)]"
  by (induction m) auto

lemma manifest_in_order:
  assumes "inj_on key {..<n}"
  shows "foldl (\<lambda>m j. dict_set m (key j) (val j)) [] [0..<n] = map (\<lambda>j. (key j, val j)) [0..<n]"
  using assms
proof (induction n)
  case 0
  then show ?case by simp
next
  case (Suc n)
  from Suc.prems have i: "inj_on key {..<n}" by (rule inj_on_subset) auto
  have "key n \<notin> key ` {..<n}"
  proof
    assume "key n \<in> key ` {..<n}"
    then obtain j where j: "j < n" "key n = key j" by auto
    with Suc.prems have "n = j" by (auto simp: inj_on_def)
    with j show False by simp
  qed
  then have "key n \<notin> fst ` set (map (\<lambda>j. (key j, val j)) [0..<n])" by (auto simp: image_iff)
  then show ?case using Suc.IH [OF i] by (simp add: dict_set_fresh)
qed

lemma packer_atlas_shows_tiles:
  assumes "sorted_files listing = Inr files"
    and "\<forall>f \<in> set files. \<exists>img. fs f = Some img \<and> im_width img = nat tile_size \<and> im_height img = nat tile_size"
    and "1 \<le> atlas_cols" and "1 \<le> tile_size"
    and "i < length files" and "0 \<le> dx" and "dx < tile_size" and "0 \<le> dy" and "dy < tile_size"
  shows "atlas_pixel (pack tile_size atlas_cols fs listing)
           ((int i mod atlas_cols) * tile_size + dx) ((int i div atlas_cols) * tile_size + dy)
         = Some (im_pixel (the (fs (files ! i))) dx dy)"
proof -
  let ?rows = "\<lceil>real_of_int (int (length files)) / real_of_int atlas_cols\<rceil>"
  let ?canvas = "\<lparr>im_width = nat (atlas_cols * tile_size), im_height = nat (?rows * tile_size),
                  im_pixel = (\<lambda>px py. transparent)\<rparr>"
  let ?src = "\<lambda>k. the (fs (files ! k))"
  let ?org = "cell_origin tile_size atlas_cols"
  let ?px = "(int i mod atlas_cols) * tile_size + dx"
  let ?py = "(int i div atlas_cols) * tile_size + dy"
  have ts: "0 < tile_size" "0 \<le> tile_size" using assms(4) by auto
  have opens: "\<forall>f \<in> set files. fs f \<noteq> None" using assms(2) by auto
  have sz: "im_width (?src k) = nat tile_size \<and> im_height (?src k) = nat tile_size" if "k < length files" for k
  proof -
    from that have "files ! k \<in> set files" by simp
    with assms(2) show ?thesis by fastforce
  qed
  have cov: "covers (?src k) (?org k) px py \<longleftrightarrow> px div tile_size = int k mod atlas_cols \<and> py div tile_size = int k div atlas_cols"
    if "k < length files" for k px py
    using covers_square [of "?src k" tile_size "int k mod atlas_cols" "int k div atlas_cols" px py] sz [OF that] ts(1)
    by (simp add: cell_origin_def)
  have dpx: "?px div tile_size = int i mod atlas_cols" by (rule cell_offset_div(1) [OF ts(1) assms(6,7)])
  have dpy: "?py div tile_size = int i div atlas_cols" by (rule cell_offset_div(1) [OF ts(1) assms(8,9)])
  have c0: "covers (?src i) (?org i) ?px ?py" using cov [OF assms(5)] dpx dpy by simp
  have uniq: "\<forall>k \<in> set [0..<length files]. covers (?src k) (?org k) ?px ?py \<longrightarrow> k = i"
  proof (intro ballI impI)
    fix k assume k: "k \<in> set [0..<length files]" and c: "covers (?src k) (?org k) ?px ?py"
    from k have "k < length files" by simp
    from cov [OF this] c dpx dpy have "int k mod atlas_cols = int i mod atlas_cols" "int k div atlas_cols = int i div atlas_cols"
      by simp_all
    then have "int k = int i" by (metis mult_div_mod_eq)
    then show "k = i" by simp
  qed
  have rows: "?rows = (int (length files) + atlas_cols - 1) div atlas_cols"
    using assms(3) by (intro ceiling_div_int) simp
  have inb: "in_bounds ?canvas ?px ?py"
  proof -
    have m: "0 \<le> int i mod atlas_cols" "int i mod atlas_cols < atlas_cols" using assms(3) by simp_all
    then have "int i mod atlas_cols + 1 \<le> atlas_cols" by simp
    then have "(int i mod atlas_cols + 1) * tile_size \<le> atlas_cols * tile_size"
      using ts(2) by (rule mult_right_mono)
    then have x: "?px < atlas_cols * tile_size" using assms(7) by (simp add: algebra_simps)
    have x0: "0 \<le> ?px" using m(1) ts(2) assms(6) by simp
    have "int i + atlas_cols \<le> int (length files) + atlas_cols - 1" using assms(5) by simp
    then have "(int i + atlas_cols) div atlas_cols \<le> (int (length files) + atlas_cols - 1) div atlas_cols"
      using assms(3) by (intro zdiv_mono1) simp_all
    moreover have "(int i + atlas_cols) div atlas_cols = int i div atlas_cols + 1"
      using assms(3) by simp
    ultimately have "int i div atlas_cols + 1 \<le> ?rows" using rows by simp
    then have "(int i div atlas_cols + 1) * tile_size \<le> ?rows * tile_size"
      using ts(2) by (rule mult_right_mono)
    then have y: "?py < ?rows * tile_size" using assms(9) by (simp add: algebra_simps)
    have "0 \<le> int i div atlas_cols" using assms(3) by (simp add: pos_imp_zdiv_nonneg_iff)
    then have y0: "0 \<le> ?py" using ts(2) assms(8) by simp
    from x x0 y y0 show ?thesis by (simp add: in_bounds_def)
  qed
  have "im_pixel (foldl (\<lambda>im k. paste_with (\<lambda>d s. s) im (?src k) (?org k)) ?canvas [0..<length files]) ?px ?py
      = im_pixel (?src i) (?px - fst (?org i)) (?py - snd (?org i))"
    using foldl_paste_once [of "[0..<length files]" i ?src ?org ?px ?py ?canvas "\<lambda>d s. s"] assms(5) c0 uniq inb
    by simp
  moreover have "?px - fst (?org i) = dx" "?py - snd (?org i) = dy" by (simp_all add: cell_origin_def)
  ultimately have px: "im_pixel (foldl (\<lambda>im k. paste im (?src k) (?org k)) ?canvas [0..<length files]) ?px ?py
      = im_pixel (?src i) dx dy"
    by (simp add: paste_paste_with)
  have ne: "files \<noteq> []" using assms(5) by auto
  show ?thesis
    unfolding pack_eq [OF assms(1) opens assms(3) assms(4) ne] using px by (simp add: atlas_pixel_def)
qed

text \<open>
  Claim C2, as amended: for \<open>N \<ge> 1\<close> tile files with integer stems that all open, a
  column count \<open>C \<ge> 1\<close> and a tile size \<open>\<ge> 1\<close>, the sorted list holds the selected
  names in ascending order of their stems' integer values (names of equal value in the
  order of the listing), the run succeeds, the atlas is \<open>C * tileSize\<close> wide and
  \<open>ceil(N/C) * tileSize\<close> high; it is the transparent canvas with the tile at sorted
  position \<open>i\<close> pasted at \<open>(i mod C * tileSize, i div C * tileSize)\<close>, for \<open>i\<close> from 0
  upwards; and the manifest entry under that tile's key \<^verbatim>\<open>tile-<stem>\<close> is the rectangle
  \<open>{x: i mod C * tileSize, y: i div C * tileSize, width: tileSize, height: tileSize}\<close>
  provided no tile at a later sorted position has the same stem. When every tile image
  is \<open>tileSize\<close> wide and high, the atlas shows tile \<open>i\<close> pixel by pixel at that origin.
\<close>

theorem packer_places_tiles_row_major:
  assumes "sorted_files listing = Inr files" and "\<forall>f \<in> set files. fs f \<noteq> None"
    and "1 \<le> atlas_cols" and "1 \<le> tile_size" and "files \<noteq> []"
  shows "\<exists>out. pack tile_size atlas_cols fs listing = Inr out
     \<and> set files = {f \<in> set listing. is_png f}
     \<and> length files = length (filter is_png listing)
     \<and> sorted (map (\<lambda>f. the (stem_int f)) files)
     \<and> (\<forall>k. filter (\<lambda>f. the (stem_int f) = k) files
              = filter (\<lambda>f. the (stem_int f) = k) (filter is_png listing))
     \<and> int (im_width (atlas out)) = atlas_cols * tile_size
     \<and> int (im_height (atlas out)) = \<lceil>real (length files) / real_of_int atlas_cols\<rceil> * tile_size
     \<and> \<lceil>real (length files) / real_of_int atlas_cols\<rceil> = (int (length files) + atlas_cols - 1) div atlas_cols
     \<and> atlas out =
         foldl (\<lambda>im i. paste im (the (fs (files ! i)))
                          ((int i mod atlas_cols) * tile_size, (int i div atlas_cols) * tile_size))
           \<lparr>im_width = nat (atlas_cols * tile_size),
            im_height = nat (\<lceil>real (length files) / real_of_int atlas_cols\<rceil> * tile_size),
            im_pixel = (\<lambda>px py. transparent)\<rparr> [0..<length files]
     \<and> (\<forall>i < length files.
           (\<forall>j. i < j \<and> j < length files \<longrightarrow> fst (splitext (files ! j)) \<noteq> fst (splitext (files ! i))) \<longrightarrow>
           map_of (manifest out) (''tile-'' @ fst (splitext (files ! i)))
             = Some (Rect ((int i mod atlas_cols) * tile_size) ((int i div atlas_cols) * tile_size) tile_size tile_size))
     \<and> ((\<forall>f \<in> set files. im_width (the (fs f)) = nat tile_size \<and> im_height (the (fs f)) = nat tile_size) \<longrightarrow>
         (\<forall>i dx dy. i < length files \<and> 0 \<le> dx \<and> dx < tile_size \<and> 0 \<le> dy \<and> dy < tile_size \<longrightarrow>
            im_pixel (atlas out) ((int i mod atlas_cols) * tile_size + dx) ((int i div atlas_cols) * tile_size + dy)
              = im_pixel (the (fs (files ! i))) dx dy))"
proof -
  note srt = sorted_files_sorted [OF assms(1)]
  have ts0: "0 \<le> tile_size" using assms(4) by simp
  let ?rows = "\<lceil>real (length files) / real_of_int atlas_cols\<rceil>"
  let ?canvas = "\<lparr>im_width = nat (atlas_cols * tile_size), im_height = nat (?rows * tile_size), im_pixel = (\<lambda>px py. transparent)\<rparr>"
  let ?atlas = "foldl (\<lambda>im i. paste im (the (fs (files ! i))) (cell_origin tile_size atlas_cols i)) ?canvas [0..<length files]"
  let ?manifest = "foldl (\<lambda>m i. dict_set m (manifest_key (files ! i)) (cell_rect tile_size atlas_cols i)) [] [0..<length files]"
  have run: "pack tile_size atlas_cols fs listing = Inr \<lparr>atlas = ?atlas, manifest = ?manifest\<rparr>"
    using pack_eq [OF assms] by simp
  have rows: "?rows = (int (length files) + atlas_cols - 1) div atlas_cols"
    using assms(3) ceiling_div_int [of atlas_cols "int (length files)"] by simp
  have "0 \<le> (int (length files) + atlas_cols - 1) div atlas_cols"
    using assms(3) by (simp add: pos_imp_zdiv_nonneg_iff)
  with rows have r: "0 \<le> ?rows" by simp
  have "0 \<le> atlas_cols * tile_size" using assms(3,4) by simp
  then have w: "int (im_width ?atlas) = atlas_cols * tile_size"
    by (simp add: foldl_paste_size)
  have "0 \<le> ?rows * tile_size" using r ts0 by (rule mult_nonneg_nonneg)
  then have h: "int (im_height ?atlas) = ?rows * tile_size"
    by (simp add: foldl_paste_size)
  have a: "?atlas = foldl (\<lambda>im i. paste im (the (fs (files ! i)))
                          ((int i mod atlas_cols) * tile_size, (int i div atlas_cols) * tile_size)) ?canvas [0..<length files]"
    by (simp add: cell_origin_def)
  have m: "\<forall>i < length files.
           (\<forall>j. i < j \<and> j < length files \<longrightarrow> fst (splitext (files ! j)) \<noteq> fst (splitext (files ! i))) \<longrightarrow>
           map_of ?manifest (''tile-'' @ fst (splitext (files ! i)))
             = Some (Rect ((int i mod atlas_cols) * tile_size) ((int i div atlas_cols) * tile_size) tile_size tile_size)"
  proof (intro allI impI)
    fix i assume i: "i < length files"
      and d: "\<forall>j. i < j \<and> j < length files \<longrightarrow> fst (splitext (files ! j)) \<noteq> fst (splitext (files ! i))"
    from d have "\<forall>j. i < j \<and> j < length files \<longrightarrow> manifest_key (files ! j) \<noteq> manifest_key (files ! i)"
      by (simp add: manifest_key_def)
    from manifest_lookup [of i "length files" "\<lambda>j. manifest_key (files ! j)" "cell_rect tile_size atlas_cols" "[]", OF i this]
    show "map_of ?manifest (''tile-'' @ fst (splitext (files ! i)))
             = Some (Rect ((int i mod atlas_cols) * tile_size) ((int i div atlas_cols) * tile_size) tile_size tile_size)"
      by (simp add: manifest_key_def cell_rect_def)
  qed
  have p: "\<forall>i dx dy. i < length files \<and> 0 \<le> dx \<and> dx < tile_size \<and> 0 \<le> dy \<and> dy < tile_size \<longrightarrow>
            im_pixel ?atlas ((int i mod atlas_cols) * tile_size + dx) ((int i div atlas_cols) * tile_size + dy)
              = im_pixel (the (fs (files ! i))) dx dy"
    if u: "\<forall>f \<in> set files. im_width (the (fs f)) = nat tile_size \<and> im_height (the (fs f)) = nat tile_size"
  proof (intro allI impI)
    fix i dx dy
    assume c: "i < length files \<and> 0 \<le> dx \<and> dx < tile_size \<and> 0 \<le> dy \<and> dy < tile_size"
    have sz: "\<forall>f \<in> set files. \<exists>img. fs f = Some img \<and> im_width img = nat tile_size \<and> im_height img = nat tile_size"
    proof
      fix f assume f: "f \<in> set files"
      with assms(2) obtain img where "fs f = Some img" by auto
      with u f show "\<exists>img. fs f = Some img \<and> im_width img = nat tile_size \<and> im_height img = nat tile_size"
        by fastforce
    qed
    from c have "atlas_pixel (pack tile_size atlas_cols fs listing)
           ((int i mod atlas_cols) * tile_size + dx) ((int i div atlas_cols) * tile_size + dy)
         = Some (im_pixel (the (fs (files ! i))) dx dy)"
      by (intro packer_atlas_shows_tiles [OF assms(1) sz assms(3) assms(4)]) simp_all
    then show "im_pixel ?atlas ((int i mod atlas_cols) * tile_size + dx) ((int i div atlas_cols) * tile_size + dy)
              = im_pixel (the (fs (files ! i))) dx dy"
      unfolding run by (simp add: atlas_pixel_def)
  qed
  show ?thesis
    apply (rule exI [of _ "\<lparr>atlas = ?atlas, manifest = ?manifest\<rparr>"])
    using run srt(1,2,3,5) w h rows a m p by simp
qed

theorem packer_places_tiles_row_major_witness:
  "\<exists>out. main (two_tiles ''1.png'' ''2.png'') [''2.png'', ''x.txt'', ''1.png''] = Inr out
     \<and> sorted_files [''2.png'', ''x.txt'', ''1.png''] = Inr [''1.png'', ''2.png'']
     \<and> sorted (map (\<lambda>f. the (stem_int f)) [''1.png'', ''2.png''])
     \<and> int (im_width (atlas out)) = 256 \<and> int (im_height (atlas out)) = 16
     \<and> map_of (manifest out) ''tile-2'' = Some (Rect 16 0 16 16)
     \<and> im_pixel (atlas out) 16 0 = RGBA 2 2 2 255"
proof -
  let ?fs = "two_tiles ''1.png'' ''2.png''"
  let ?files = "[''1.png'', ''2.png'']"
  have h1: "sorted_files [''2.png'', ''x.txt'', ''1.png''] = Inr ?files" by code_simp
  have h2: "\<forall>f \<in> set ?files. ?fs f \<noteq> None" by (simp add: two_tiles_def)
  have h3: "(1::int) \<le> 16" and h4: "(1::int) \<le> 16" and h5: "?files \<noteq> []" by simp_all
  have s: "fst (splitext ''2.png'') = ''2''" by code_simp
  have c: "\<lceil>(1::real) / 8\<rceil> = (1::int)" using ceiling_div_int [of 16 2] by simp
  from packer_places_tiles_row_major [OF h1 h2 h3 h4 h5] obtain out where
    r: "pack 16 16 ?fs [''2.png'', ''x.txt'', ''1.png''] = Inr out"
    and o: "sorted (map (\<lambda>f. the (stem_int f)) ?files)"
    and w: "int (im_width (atlas out)) = 16 * 16"
    and h: "int (im_height (atlas out)) = \<lceil>real (length ?files) / real_of_int 16\<rceil> * 16"
    and m: "\<forall>i < length ?files.
           (\<forall>j. i < j \<and> j < length ?files \<longrightarrow> fst (splitext (?files ! j)) \<noteq> fst (splitext (?files ! i))) \<longrightarrow>
           map_of (manifest out) (''tile-'' @ fst (splitext (?files ! i)))
             = Some (Rect ((int i mod 16) * 16) ((int i div 16) * 16) 16 16)"
    and p: "(\<forall>f \<in> set ?files. im_width (the (?fs f)) = nat 16 \<and> im_height (the (?fs f)) = nat 16) \<longrightarrow>
         (\<forall>i dx dy. i < length ?files \<and> 0 \<le> dx \<and> dx < 16 \<and> 0 \<le> dy \<and> dy < 16 \<longrightarrow>
            im_pixel (atlas out) ((int i mod 16) * 16 + dx) ((int i div 16) * 16 + dy)
              = im_pixel (the (?fs (?files ! i))) dx dy)"
    by blast
  have t: "\<forall>f \<in> set ?files. im_width (the (?fs f)) = nat 16 \<and> im_height (the (?fs f)) = nat 16"
    by (simp add: two_tiles_def solid_image_def)
  from p t have "im_pixel (atlas out) ((int 1 mod 16) * 16 + 0) ((int 1 div 16) * 16 + 0)
              = im_pixel (the (?fs (?files ! 1))) 0 0" by (intro p [THEN mp, OF t, rule_format]) simp
  then have x: "im_pixel (atlas out) 16 0 = RGBA 2 2 2 255" by (simp add: two_tiles_def solid_image_def)
  have i: "(1::nat) < length ?files" by simp
  have nj: "\<forall>j. 1 < j \<and> j < length ?files \<longrightarrow> fst (splitext (?files ! j)) \<noteq> fst (splitext (?files ! 1))"
    by auto
  from m i nj have "map_of (manifest out) (''tile-'' @ fst (splitext (?files ! 1)))
             = Some (Rect ((int 1 mod 16) * 16) ((int 1 div 16) * 16) 16 16)" by blast
  with s have "map_of (manifest out) ''tile-2'' = Some (Rect 16 0 16 16)" by simp
  with r h1 o w h c x show ?thesis by (simp add: main_def TILE_SIZE_def ATLAS_COLS_def)
qed

text \<open>
  Claim C2 as stated gives every tile its own manifest entry. The packer selects
  \<^verbatim>\<open>1.png\<close> and \<^verbatim>\<open>1.PNG\<close> alike, both have the stem \<^verbatim>\<open>1\<close> and so the key \<^verbatim>\<open>tile-1\<close>:
  the manifest has one entry, the rectangle of the second tile, and none with the
  rectangle \<open>(0, 0, 16, 16)\<close> of the tile at sorted position 0.
\<close>

theorem packer_same_stem_counterexample:
  "sorted_files [''1.png'', ''1.PNG''] = Inr [''1.png'', ''1.PNG'']
   \<and> fst (splitext ''1.png'') = ''1''
   \<and> map_sum id manifest (main (two_tiles ''1.png'' ''1.PNG'') [''1.png'', ''1.PNG''])
       = Inr [(''tile-1'', Rect 16 0 16 16)]"
proof -
  let ?fs = "two_tiles ''1.png'' ''1.PNG''"
  let ?files = "[''1.png'', ''1.PNG'']"
  have h1: "sorted_files [''1.png'', ''1.PNG''] = Inr ?files" by code_simp
  have h2: "\<forall>f \<in> set ?files. ?fs f \<noteq> None" by (simp add: two_tiles_def)
  have h3: "(1::int) \<le> 16" and h4: "(1::int) \<le> 16" and h5: "?files \<noteq> []" by simp_all
  have s: "fst (splitext ''1.png'') = ''1''" "fst (splitext ''1.PNG'') = ''1''" by code_simp+
  have "map_sum id manifest (pack 16 16 ?fs [''1.png'', ''1.PNG'']) = Inr [(''tile-1'', Rect 16 0 16 16)]"
    using pack_eq [OF h1 h2 h3 h4 h5] by (simp add: manifest_key_def cell_rect_def s)
  with h1 s show ?thesis by (simp add: main_def TILE_SIZE_def ATLAS_COLS_def)
qed

text \<open>
  Claim C6, as amended: for every set of tile files in which no two selected files have
  stems of the same integer value, and any two orderings in which the file system lists
  them, the packer gives the same result: the same atlas and manifest, or the same error
  when a stem is no integer. Both listings are sorted into one list, which holds the
  selected names in strictly ascending order of their stems' integer values; that list
  is the packing order: with at least one tile, every tile opening, a column count and a
  tile size \<open>\<ge> 1\<close>, the run succeeds, the atlas is the canvas with the tiles pasted in
  that order and the manifest lists the tiles in that order, one entry each.
\<close>

theorem packer_independent_of_listing_order:
  assumes "distinct l1" and "distinct l2" and "set l1 = set l2"
    and "\<forall>f \<in> set l1. \<forall>g \<in> set l1. is_png f \<longrightarrow> is_png g \<longrightarrow> stem_int f = stem_int g
           \<longrightarrow> stem_int f \<noteq> None \<longrightarrow> f = g"
  shows "main fs l1 = main fs l2 \<and> pack tile_size atlas_cols fs l1 = pack tile_size atlas_cols fs l2
     \<and> sorted_files l1 = sorted_files l2
     \<and> (\<forall>files. sorted_files l1 = Inr files \<longrightarrow>
          set files = {f \<in> set l1. is_png f}
          \<and> distinct files
          \<and> sorted (map (\<lambda>f. the (stem_int f)) files)
          \<and> sorted_wrt (<) (map (\<lambda>f. the (stem_int f)) files)
          \<and> (files \<noteq> [] \<and> (\<forall>f \<in> set files. fs f \<noteq> None) \<and> 1 \<le> atlas_cols \<and> 1 \<le> tile_size \<longrightarrow>
               (\<exists>out. pack tile_size atlas_cols fs l1 = Inr out
                  \<and> pack tile_size atlas_cols fs l2 = Inr out
                  \<and> atlas out =
                      foldl (\<lambda>im i. paste im (the (fs (files ! i)))
                                       ((int i mod atlas_cols) * tile_size, (int i div atlas_cols) * tile_size))
                        \<lparr>im_width = nat (atlas_cols * tile_size),
                         im_height = nat (\<lceil>real (length files) / real_of_int atlas_cols\<rceil> * tile_size),
                         im_pixel = (\<lambda>px py. transparent)\<rparr> [0..<length files]
                  \<and> manifest out =
                      map (\<lambda>i. (''tile-'' @ fst (splitext (files ! i)),
                                Rect ((int i mod atlas_cols) * tile_size) ((int i div atlas_cols) * tile_size)
                                  tile_size tile_size)) [0..<length files])))"
proof -
  note eq = sorted_files_listing_order [OF assms]
  have same: "main fs l1 = main fs l2 \<and> pack tile_size atlas_cols fs l1 = pack tile_size atlas_cols fs l2"
    using eq by (simp add: main_def pack_def)
  have order: "set files = {f \<in> set l1. is_png f}
          \<and> distinct files
          \<and> sorted (map (\<lambda>f. the (stem_int f)) files)
          \<and> sorted_wrt (<) (map (\<lambda>f. the (stem_int f)) files)
          \<and> (files \<noteq> [] \<and> (\<forall>f \<in> set files. fs f \<noteq> None) \<and> 1 \<le> atlas_cols \<and> 1 \<le> tile_size \<longrightarrow>
               (\<exists>out. pack tile_size atlas_cols fs l1 = Inr out
                  \<and> pack tile_size atlas_cols fs l2 = Inr out
                  \<and> atlas out =
                      foldl (\<lambda>im i. paste im (the (fs (files ! i)))
                                       ((int i mod atlas_cols) * tile_size, (int i div atlas_cols) * tile_size))
                        \<lparr>im_width = nat (atlas_cols * tile_size),
                         im_height = nat (\<lceil>real (length files) / real_of_int atlas_cols\<rceil> * tile_size),
                         im_pixel = (\<lambda>px py. transparent)\<rparr> [0..<length files]
                  \<and> manifest out =
                      map (\<lambda>i. (''tile-'' @ fst (splitext (files ! i)),
                                Rect ((int i mod atlas_cols) * tile_size) ((int i div atlas_cols) * tile_size)
                                  tile_size tile_size)) [0..<length files]))"
    if sf: "sorted_files l1 = Inr files" for files
  proof -
    note srt = sorted_files_sorted [OF sf]
    have d: "distinct files" using srt(6) assms(1) by simp
    have inj: "inj_on (\<lambda>f. the (stem_int f)) (set files)"
    proof (rule inj_onI)
      fix f g assume f: "f \<in> set files" and g: "g \<in> set files"
        and e: "the (stem_int f) = the (stem_int g)"
      from srt(4) f have sf: "stem_int f \<noteq> None" by blast
      from srt(4) g have sg: "stem_int g \<noteq> None" by blast
      from sf sg e have "stem_int f = stem_int g" by auto
      moreover from f g srt(2) have "f \<in> set l1" "g \<in> set l1" "is_png f" "is_png g" by auto
      ultimately show "f = g" using assms(4) sf by blast
    qed
    have strict: "sorted_wrt (<) (map (\<lambda>f. the (stem_int f)) files)"
      using srt(1) d inj by (simp add: strict_sorted_iff distinct_map)
    have keys: "inj_on (\<lambda>i. manifest_key (files ! i)) {..<length files}"
    proof (rule inj_onI)
      fix i j assume i: "i \<in> {..<length files}" and j: "j \<in> {..<length files}"
        and e: "manifest_key (files ! i) = manifest_key (files ! j)"
      from e have "fst (splitext (files ! i)) = fst (splitext (files ! j))" by (simp add: manifest_key_def)
      then have v: "the (stem_int (files ! i)) = the (stem_int (files ! j))" by (simp add: stem_int_def)
      from i j have m: "files ! i \<in> set files" "files ! j \<in> set files" by simp_all
      from inj_onD [OF inj v m] have "files ! i = files ! j" .
      with d i j show "i = j" by (simp add: nth_eq_iff_index_eq)
    qed
    have run: "\<exists>out. pack tile_size atlas_cols fs l1 = Inr out
                  \<and> pack tile_size atlas_cols fs l2 = Inr out
                  \<and> atlas out =
                      foldl (\<lambda>im i. paste im (the (fs (files ! i)))
                                       ((int i mod atlas_cols) * tile_size, (int i div atlas_cols) * tile_size))
                        \<lparr>im_width = nat (atlas_cols * tile_size),
                         im_height = nat (\<lceil>real (length files) / real_of_int atlas_cols\<rceil> * tile_size),
                         im_pixel = (\<lambda>px py. transparent)\<rparr> [0..<length files]
                  \<and> manifest out =
                      map (\<lambda>i. (''tile-'' @ fst (splitext (files ! i)),
                                Rect ((int i mod atlas_cols) * tile_size) ((int i div atlas_cols) * tile_size)
                                  tile_size tile_size)) [0..<length files]"
      if c: "files \<noteq> [] \<and> (\<forall>f \<in> set files. fs f \<noteq> None) \<and> 1 \<le> atlas_cols \<and> 1 \<le> tile_size"
    proof -
      from c have ne: "files \<noteq> []" and opens: "\<forall>f \<in> set files. fs f \<noteq> None"
        and cols: "1 \<le> atlas_cols" and ts: "1 \<le> tile_size" by simp_all
      note p1 = pack_eq [OF sf opens cols ts ne]
      have p2: "pack tile_size atlas_cols fs l2 = pack tile_size atlas_cols fs l1" using same by simp
      have mf: "foldl (\<lambda>m i. dict_set m (manifest_key (files ! i)) (cell_rect tile_size atlas_cols i)) [] [0..<length files]
          = map (\<lambda>i. (manifest_key (files ! i), cell_rect tile_size atlas_cols i)) [0..<length files]"
        using keys by (rule manifest_in_order)
      show ?thesis
        unfolding p2 p1 mf by (simp add: cell_origin_def manifest_key_def cell_rect_def)
    qed
    from srt(2) d srt(1) strict run show ?thesis by blast
  qed
  from same eq order show ?thesis by blast
qed

theorem packer_independent_of_listing_order_witness:
  "main (two_tiles ''1.png'' ''2.png'') [''2.png'', ''1.png''] = main (two_tiles ''1.png'' ''2.png'') [''1.png'', ''2.png'']
   \<and> sorted_files [''2.png'', ''1.png''] = Inr [''1.png'', ''2.png'']
   \<and> sorted_files [''1.png'', ''2.png''] = Inr [''1.png'', ''2.png'']
   \<and> map (\<lambda>f. the (stem_int f)) [''1.png'', ''2.png''] = [1, 2]
   \<and> map_sum id manifest (main (two_tiles ''1.png'' ''2.png'') [''2.png'', ''1.png''])
       = Inr [(''tile-1'', Rect 0 0 16 16), (''tile-2'', Rect 16 0 16 16)]"
proof -
  let ?l1 = "[''2.png'', ''1.png'']"
  let ?l2 = "[''1.png'', ''2.png'']"
  let ?fs = "two_tiles ''1.png'' ''2.png''"
  have h1: "distinct ?l1" and h2: "distinct ?l2" and h3: "set ?l1 = set ?l2" by auto
  have s: "stem_int ''1.png'' = Some 1" "stem_int ''2.png'' = Some 2" by code_simp+
  have x: "fst (splitext ''1.png'') = ''1''" "fst (splitext ''2.png'') = ''2''" by code_simp+
  have h4: "\<forall>f \<in> set ?l1. \<forall>g \<in> set ?l1. is_png f \<longrightarrow> is_png g \<longrightarrow> stem_int f = stem_int g
           \<longrightarrow> stem_int f \<noteq> None \<longrightarrow> f = g"
    by (simp add: s)
  have sf: "sorted_files ?l1 = Inr ?l2" by code_simp
  have c: "?l2 \<noteq> [] \<and> (\<forall>f \<in> set ?l2. ?fs f \<noteq> None) \<and> (1::int) \<le> 16 \<and> (1::int) \<le> 16"
    by (simp add: two_tiles_def)
  note t = packer_independent_of_listing_order [OF h1 h2 h3 h4, of ?fs 16 16]
  from t have e: "main ?fs ?l1 = main ?fs ?l2" by (rule conjunct1)
  from t have e2: "sorted_files ?l1 = sorted_files ?l2" by simp
  from t sf c obtain out where r: "pack 16 16 ?fs ?l1 = Inr out"
    and m: "manifest out =
              map (\<lambda>i. (''tile-'' @ fst (splitext (?l2 ! i)),
                        Rect ((int i mod 16) * 16) ((int i div 16) * 16) 16 16)) [0..<length ?l2]"
    by blast
  have u: "[0..<length ?l2] = [0, 1]" by (simp add: upt_rec)
  from m have "manifest out = [(''tile-1'', Rect 0 0 16 16), (''tile-2'', Rect 16 0 16 16)]"
    unfolding u by (simp add: x)
  with r have "map_sum id manifest (main ?fs ?l1) = Inr [(''tile-1'', Rect 0 0 16 16), (''tile-2'', Rect 16 0 16 16)]"
    by (simp add: main_def TILE_SIZE_def ATLAS_COLS_def)
  with e e2 sf show ?thesis by (simp add: s)
qed

text \<open>
  Claim C6 as stated covers every set of files. \<^verbatim>\<open>1.png\<close> and \<^verbatim>\<open>01.png\<close> both have the
  key 1; \<^verbatim>\<open>sorted\<close> is stable and keeps them in the order of the listing, so the two
  listings of the same folder give different manifests and different atlases.
\<close>

theorem packer_equal_stem_values_counterexample:
  "distinct [''1.png'', ''01.png''] \<and> distinct [''01.png'', ''1.png'']
   \<and> set [''1.png'', ''01.png''] = set [''01.png'', ''1.png'']
   \<and> map_sum id manifest (main (two_tiles ''1.png'' ''01.png'') [''1.png'', ''01.png''])
       = Inr [(''tile-1'', Rect 0 0 16 16), (''tile-01'', Rect 16 0 16 16)]
   \<and> map_sum id manifest (main (two_tiles ''1.png'' ''01.png'') [''01.png'', ''1.png''])
       = Inr [(''tile-01'', Rect 0 0 16 16), (''tile-1'', Rect 16 0 16 16)]
   \<and> atlas_pixel (main (two_tiles ''1.png'' ''01.png'') [''1.png'', ''01.png'']) 0 0 = Some (RGBA 1 1 1 255)
   \<and> atlas_pixel (main (two_tiles ''1.png'' ''01.png'') [''01.png'', ''1.png'']) 0 0 = Some (RGBA 2 2 2 255)
   \<and> main (two_tiles ''1.png'' ''01.png'') [''1.png'', ''01.png'']
       \<noteq> main (two_tiles ''1.png'' ''01.png'') [''01.png'', ''1.png'']"
proof -
  let ?fs = "two_tiles ''1.png'' ''01.png''"
  have a: "sorted_files [''1.png'', ''01.png''] = Inr [''1.png'', ''01.png'']" by code_simp
  have b: "sorted_files [''01.png'', ''1.png''] = Inr [''01.png'', ''1.png'']" by code_simp
  have h3: "(1::int) \<le> 16" and h4: "(1::int) \<le> 16" by simp_all
  have na: "[''1.png'', ''01.png''] \<noteq> []" and nb: "[''01.png'', ''1.png''] \<noteq> []" by simp_all
  have s: "fst (splitext ''1.png'') = ''1''" "fst (splitext ''01.png'') = ''01''" by code_simp+
  have fa: "\<forall>f \<in> set [''1.png'', ''01.png'']. ?fs f \<noteq> None" by (simp add: two_tiles_def)
  have fb: "\<forall>f \<in> set [''01.png'', ''1.png'']. ?fs f \<noteq> None" by (simp add: two_tiles_def)
  note pa = pack_eq [OF a fa h3 h4 na]
  note pb = pack_eq [OF b fb h3 h4 nb]
  have ma: "map_sum id manifest (main ?fs [''1.png'', ''01.png''])
       = Inr [(''tile-1'', Rect 0 0 16 16), (''tile-01'', Rect 16 0 16 16)]"
    using pa by (simp add: main_def TILE_SIZE_def ATLAS_COLS_def manifest_key_def cell_rect_def s)
  have mb: "map_sum id manifest (main ?fs [''01.png'', ''1.png''])
       = Inr [(''tile-01'', Rect 0 0 16 16), (''tile-1'', Rect 16 0 16 16)]"
    using pb by (simp add: main_def TILE_SIZE_def ATLAS_COLS_def manifest_key_def cell_rect_def s)
  have c: "\<lceil>(1::real) / 8\<rceil> = (1::int)" using ceiling_div_int [of 16 2] by simp
  have xa: "atlas_pixel (main ?fs [''1.png'', ''01.png'']) 0 0 = Some (RGBA 1 1 1 255)"
    unfolding main_def TILE_SIZE_def ATLAS_COLS_def pa atlas_pixel_def
    by (simp add: cell_origin_def paste_def in_bounds_def two_tiles_def solid_image_def c)
  have xb: "atlas_pixel (main ?fs [''01.png'', ''1.png'']) 0 0 = Some (RGBA 2 2 2 255)"
    unfolding main_def TILE_SIZE_def ATLAS_COLS_def pb atlas_pixel_def
    by (simp add: cell_origin_def paste_def in_bounds_def two_tiles_def solid_image_def c)
  have ne: "main ?fs [''1.png'', ''01.png''] \<noteq> main ?fs [''01.png'', ''1.png'']"
  proof
    assume "main ?fs [''1.png'', ''01.png''] = main ?fs [''01.png'', ''1.png'']"
    then have "map_sum id manifest (main ?fs [''1.png'', ''01.png'']) = map_sum id manifest (main ?fs [''01.png'', ''1.png''])"
      by simp
    with ma mb show False by simp
  qed
  have st: "set [''1.png'', ''01.png''] = set [''01.png'', ''1.png'']" by auto
  from ma mb xa xb ne st show ?thesis by simp
qed

text \<open>
  Claim C5: if the stem of any file the packer selects is no integer, the run raises
  \<^verbatim>\<open>ValueError\<close> in its first statement, before an atlas or a manifest exists, whatever
  else is in the folder; the renamer, given a \<^verbatim>\<open>.png\<close> name whose stem is not two
  integers separated by \<open>_\<close>, reports the skip, leaves the folder as it is and goes on:
  the folder at the end is the one of the run without that name in the listing.
\<close>

theorem bad_stem_aborts_packer_but_renamer_skips:
  "(f \<in> set listing \<and> is_png f \<and> stem_int f = None \<longrightarrow>
      main fs listing = Inl ValueError \<and> pack tile_size atlas_cols fs listing = Inl ValueError)
   \<and> (endswith g ''.png'' \<and> parse_xy (fst (splitext g)) = None \<longrightarrow>
        renamer_body g (folder, out) = Inr (folder, out @ [Skipped g])
      \<and> map_sum id fst (renamer folder (before @ g # after)) = map_sum id fst (renamer folder (before @ after)))"
proof -
  have 1: "main fs listing = Inl ValueError \<and> pack tile_size atlas_cols fs listing = Inl ValueError"
    if "f \<in> set listing \<and> is_png f \<and> stem_int f = None"
  proof -
    from that have "sorted_files listing = Inl ValueError" by (intro sorted_files_error) auto
    then show ?thesis by (simp add: main_def pack_def)
  qed
  have 2: "renamer_body g (folder, out) = Inr (folder, out @ [Skipped g])
      \<and> map_sum id fst (renamer folder (before @ g # after)) = map_sum id fst (renamer folder (before @ after))"
    if "endswith g ''.png'' \<and> parse_xy (fst (splitext g)) = None"
  proof -
    from that have t: "rename_target g = None" by (simp add: rename_target_def)
    from renamer_body_no_target [OF t, of folder out] that renamer_skip_in_batch [OF t, of folder before after]
    show ?thesis by simp
  qed
  from 1 2 show ?thesis by blast
qed

theorem bad_stem_aborts_packer_but_renamer_skips_witness:
  "main (two_tiles ''1.png'' ''a.png'') [''1.png'', ''a.png''] = Inl ValueError
   \<and> renamer_body ''a.png'' (two_tiles ''0_0.png'' ''a.png'', []) = Inr (two_tiles ''0_0.png'' ''a.png'', [Skipped ''a.png''])
   \<and> map_sum id fst (renamer (two_tiles ''0_0.png'' ''a.png'') ([] @ ''a.png'' # [''0_0.png'']))
       = map_sum id fst (renamer (two_tiles ''0_0.png'' ''a.png'') ([] @ [''0_0.png'']))"
proof -
  have a: "''a.png'' \<in> set [''1.png'', ''a.png''] \<and> is_png ''a.png'' \<and> stem_int ''a.png'' = None"
    by (simp, code_simp)
  have b: "endswith ''a.png'' ''.png'' \<and> parse_xy (fst (splitext ''a.png'')) = None" by code_simp
  from bad_stem_aborts_packer_but_renamer_skips
    [of "''a.png''" "[''1.png'', ''a.png'']" "two_tiles ''1.png'' ''a.png''" 16 16 "''a.png''"
        "two_tiles ''0_0.png'' ''a.png''" "[]" "[]" "[''0_0.png'']"] a b
  show ?thesis by simp
qed

text \<open>
  Claim C8 on the code: the packer selects \<^verbatim>\<open>1.PNG\<close>, its test lowers the name first.
  The renamer's test does not: \<^verbatim>\<open>0_0.PNG\<close>, whose stem reads as \<open>(0, 0)\<close>, is neither
  renamed nor reported, while \<^verbatim>\<open>0_0.png\<close> becomes \<^verbatim>\<open>1.png\<close>.
\<close>

theorem renamer_extension_case_sensitive:
  "is_png ''1.PNG''
   \<and> sorted_files [''1.PNG''] = Inr [''1.PNG'']
   \<and> parse_xy (fst (splitext ''0_0.PNG'')) = Some (0, 0)
   \<and> renamer [''0_0.PNG'' \<mapsto> True] [''0_0.PNG''] = Inr ([''0_0.PNG'' \<mapsto> True], [])
   \<and> renamer [''0_0.png'' \<mapsto> True] [''0_0.png''] = Inr ([''1.png'' \<mapsto> True], [Renamed ''0_0.png'' ''1.png''])"
proof -
  have 1: "is_png ''1.PNG''" by code_simp
  have 2: "sorted_files [''1.PNG''] = Inr [''1.PNG'']" by code_simp
  have 3: "parse_xy (fst (splitext ''0_0.PNG'')) = Some (0, 0)" by code_simp
  have "rename_target ''0_0.PNG'' = None" by code_simp
  then have 4: "renamer [''0_0.PNG'' \<mapsto> True] [''0_0.PNG''] = Inr ([''0_0.PNG'' \<mapsto> True], [])"
    by (simp add: renamer_def renamer_body_no_target endswith_def)
  have t: "rename_target ''0_0.png'' = Some ''1.png''" by code_simp
  have 5: "renamer [''0_0.png'' \<mapsto> True] [''0_0.png''] = Inr ([''1.png'' \<mapsto> True], [Renamed ''0_0.png'' ''1.png''])"
    using renamer_body_target [OF t, of "[''0_0.png'' \<mapsto> True]" True "[]"] by (simp add: renamer_def)
  from 1 2 3 4 5 show ?thesis by simp
qed

section \<open>Properties of the chunk baker\<close>

lemma paste_mask_self_blend:
  "paste_mask blend dst src box src = Inr (paste_with (self_blend blend) dst src box)"
  by (simp add: paste_mask_def paste_with_def self_blend_def split: prod.splits)

lemma fill_row:
  "for_each (\<lambda>x img. paste_mask blend img tile (x * ts, y * ts) tile) xs img =
     Inr (foldl (\<lambda>im cell. paste_with (self_blend blend) im tile (fst cell * ts, snd cell * ts)) img
            (map (\<lambda>x. (x, y)) xs))"
  by (induction xs arbitrary: img) (simp_all add: paste_mask_self_blend)

lemma fill_rows:
  "for_each (\<lambda>y. for_each (\<lambda>x img. paste_mask blend img tile (x * ts, y * ts) tile) xs) ys img =
     Inr (foldl (\<lambda>im cell. paste_with (self_blend blend) im tile (fst cell * ts, snd cell * ts)) img
            (concat (map (\<lambda>y. map (\<lambda>x. (x, y)) xs) ys)))"
  by (induction ys arbitrary: img) (simp_all add: fill_row)

lemma fill_chunk_eq:
  "fill_chunk blend tile_size chunk_size tile
     \<lparr>im_width = nat (chunk_size * tile_size), im_height = nat (chunk_size * tile_size),
      im_pixel = (\<lambda>px py. transparent)\<rparr>
   = Inr (filled_chunk blend tile_size chunk_size tile)"
  by (simp add: fill_chunk_def fill_rows filled_chunk_def grid_cells_def)

lemma filled_chunk_size:
  "0 \<le> chunk_size * tile_size \<Longrightarrow> int (im_width (filled_chunk blend tile_size chunk_size tile)) = chunk_size * tile_size"
  "0 \<le> chunk_size * tile_size \<Longrightarrow> int (im_height (filled_chunk blend tile_size chunk_size tile)) = chunk_size * tile_size"
  by (simp_all add: filled_chunk_def foldl_paste_with_size)

lemma bake_chunk_eq:
  assumes "1 \<le> chunk_size" and "1 \<le> tile_size"
  shows "bake_chunk blend tile_size chunk_size tile cy cx saved =
     Inr (saved @ [(chunk_filename cx cy, filled_chunk blend tile_size chunk_size tile)])"
proof -
  have p: "1 \<le> chunk_size * tile_size" using assms by (rule int_mult_ge1)
  then have n: "0 \<le> chunk_size * tile_size" by simp
  have new: "Image_new (chunk_size * tile_size) (chunk_size * tile_size)
      = Inr \<lparr>im_width = nat (chunk_size * tile_size), im_height = nat (chunk_size * tile_size),
             im_pixel = (\<lambda>px py. transparent)\<rparr>"
    using n by (simp add: Image_new_def)
  have "im_width (filled_chunk blend tile_size chunk_size tile) \<noteq> 0"
    "im_height (filled_chunk blend tile_size chunk_size tile) \<noteq> 0"
    using filled_chunk_size [OF n, of blend tile] p by auto
  then have save: "Image_save (filled_chunk blend tile_size chunk_size tile) = Inr ()"
    by (simp add: Image_save_def)
  show ?thesis by (simp add: bake_chunk_def new fill_chunk_eq save)
qed

lemma bake_chunk_empty_raises:
  assumes "chunk_size * tile_size = 0"
  shows "bake_chunk blend tile_size chunk_size tile cy cx saved = Inl SaveError"
proof -
  have new: "Image_new (chunk_size * tile_size) (chunk_size * tile_size)
      = Inr \<lparr>im_width = nat (chunk_size * tile_size), im_height = nat (chunk_size * tile_size),
             im_pixel = (\<lambda>px py. transparent)\<rparr>"
    unfolding assms by (simp add: Image_new_def)
  have "(0::int) \<le> chunk_size * tile_size" unfolding assms by simp
  then have "int (im_width (filled_chunk blend tile_size chunk_size tile)) = chunk_size * tile_size"
    by (rule filled_chunk_size)
  then have "im_width (filled_chunk blend tile_size chunk_size tile) = 0"
    unfolding assms by simp
  then have save: "Image_save (filled_chunk blend tile_size chunk_size tile) = Inl SaveError"
    by (simp add: Image_save_def)
  show ?thesis by (simp add: bake_chunk_def new fill_chunk_eq save)
qed

lemma bake_row:
  assumes "1 \<le> chunk_size" and "1 \<le> tile_size"
  shows "for_each (bake_chunk blend tile_size chunk_size tile cy) xs saved =
     Inr (saved @ map (\<lambda>cell. (chunk_filename (fst cell) (snd cell), filled_chunk blend tile_size chunk_size tile))
                    (map (\<lambda>x. (x, cy)) xs))"
  by (induction xs arbitrary: saved) (simp_all add: bake_chunk_eq [OF assms])

lemma bake_rows:
  assumes "1 \<le> chunk_size" and "1 \<le> tile_size"
  shows "for_each (\<lambda>cy. for_each (bake_chunk blend tile_size chunk_size tile cy) xs) ys saved =
     Inr (saved @ map (\<lambda>cell. (chunk_filename (fst cell) (snd cell), filled_chunk blend tile_size chunk_size tile))
                    (concat (map (\<lambda>y. map (\<lambda>x. (x, y)) xs) ys)))"
  by (induction ys arbitrary: saved) (simp_all add: bake_row [OF assms])

lemma bake_eq:
  assumes "fs (show_int grass_tile_id @ ''.png'') = Some tile" and "1 \<le> chunk_size" and "1 \<le> tile_size"
  shows "bake blend tile_size chunk_size map_cols map_rows grass_tile_id fs =
     Inr (map (\<lambda>cell. (chunk_filename (fst cell) (snd cell), filled_chunk blend tile_size chunk_size tile))
            (grid_cells \<lceil>real_of_int map_cols / real_of_int chunk_size\<rceil>
                        \<lceil>real_of_int map_rows / real_of_int chunk_size\<rceil>))"
proof -
  from bake_rows [OF assms(2,3), of blend tile _ _ "[]"] assms show ?thesis
    by (simp add: bake_def Let_def grid_cells_def)
qed

lemma bake_zero_tile_size_raises:
  assumes "fs (show_int grass_tile_id @ ''.png'') = Some tile"
    and "1 \<le> chunk_size" and "1 \<le> map_cols" and "1 \<le> map_rows"
  shows "bake blend 0 chunk_size map_cols map_rows grass_tile_id fs = Inl SaveError"
proof -
  have c: "1 \<le> \<lceil>real_of_int map_cols / real_of_int chunk_size\<rceil>" using assms(2,3) by (rule ceiling_div_pos)
  have r: "1 \<le> \<lceil>real_of_int map_rows / real_of_int chunk_size\<rceil>" using assms(2,4) by (rule ceiling_div_pos)
  have first: "\<exists>rest. py_range n = 0 # rest" if "1 \<le> n" for n
    using that upto_rec1 [of 0 "n - 1"] by (simp add: py_range_def)
  from first [OF c] obtain cs where cs: "py_range \<lceil>real_of_int map_cols / real_of_int chunk_size\<rceil> = 0 # cs" ..
  from first [OF r] obtain rs where rs: "py_range \<lceil>real_of_int map_rows / real_of_int chunk_size\<rceil> = 0 # rs" ..
  have e: "chunk_size * 0 = 0" by simp
  show ?thesis
    using assms(1,2) by (simp add: bake_def Let_def cs rs bake_chunk_empty_raises [OF e])
qed

lemma div_less_of_less_mult:
  assumes "0 < ts" and "a < c * ts"
  shows "a div ts < (c::int)"
proof (rule ccontr)
  assume "\<not> a div ts < c"
  then have "c \<le> a div ts" by simp
  then have "c * ts \<le> (a div ts) * ts" using assms(1) by (simp add: mult_right_mono)
  moreover have "(a div ts) * ts \<le> a"
  proof -
    have "ts * (a div ts) + a mod ts = a" by (rule mult_div_mod_eq)
    moreover have "0 \<le> a mod ts" using assms(1) by simp
    ultimately have "ts * (a div ts) \<le> a" by linarith
    then show ?thesis by (simp add: mult.commute)
  qed
  ultimately show False using assms(2) by linarith
qed

lemma filled_chunk_pixel:
  assumes "im_width tile = nat tile_size" and "im_height tile = nat tile_size"
    and "1 \<le> tile_size" and "1 \<le> chunk_size"
    and "0 \<le> px" and "px < chunk_size * tile_size" and "0 \<le> py" and "py < chunk_size * tile_size"
  shows "im_pixel (filled_chunk blend tile_size chunk_size tile) px py
           = self_blend blend transparent (im_pixel tile (px mod tile_size) (py mod tile_size))"
proof -
  let ?canvas = "\<lparr>im_width = nat (chunk_size * tile_size), im_height = nat (chunk_size * tile_size),
                  im_pixel = (\<lambda>px py. transparent)\<rparr>"
  let ?org = "\<lambda>cell. (fst cell * tile_size, snd cell * tile_size)"
  let ?k0 = "(px div tile_size, py div tile_size)"
  have ts: "0 < tile_size" using assms(3) by simp
  have cov: "covers tile (?org k) px py \<longleftrightarrow> k = ?k0" for k :: "int \<times> int"
  proof -
    obtain x y where k: "k = (x, y)" by (cases k)
    have "covers tile (x * tile_size, y * tile_size) px py \<longleftrightarrow> px div tile_size = x \<and> py div tile_size = y"
      by (rule covers_square [OF assms(1,2) ts])
    then show ?thesis unfolding k by (simp add: eq_commute)
  qed
  have bx: "px div tile_size < chunk_size" using ts assms(6) by (rule div_less_of_less_mult)
  have by': "py div tile_size < chunk_size" using ts assms(8) by (rule div_less_of_less_mult)
  have "0 \<le> px div tile_size" "0 \<le> py div tile_size"
    using assms(5,7) ts by (simp_all add: pos_imp_zdiv_nonneg_iff)
  with bx by' have mem: "?k0 \<in> set (grid_cells chunk_size chunk_size)" by (simp add: set_grid_cells)
  have inb: "in_bounds ?canvas px py" using assms(5-8) by (simp add: in_bounds_def)
  have "im_pixel (foldl (\<lambda>im k. paste_with (self_blend blend) im tile (?org k)) ?canvas (grid_cells chunk_size chunk_size)) px py
      = self_blend blend (im_pixel ?canvas px py) (im_pixel tile (px - fst (?org ?k0)) (py - snd (?org ?k0)))"
  proof (rule foldl_paste_once [of "grid_cells chunk_size chunk_size" ?k0 "\<lambda>k. tile" ?org px py ?canvas "self_blend blend"])
    show "distinct (grid_cells chunk_size chunk_size)" by (rule distinct_grid_cells)
    show "?k0 \<in> set (grid_cells chunk_size chunk_size)" by (rule mem)
    show "covers tile (?org ?k0) px py" using cov [of ?k0] by simp
    show "\<forall>k \<in> set (grid_cells chunk_size chunk_size). covers tile (?org k) px py \<longrightarrow> k = ?k0"
      using cov by blast
    show "in_bounds ?canvas px py" by (rule inb)
  qed
  moreover have "px - fst (?org ?k0) = px mod tile_size" "py - snd (?org ?k0) = py mod tile_size"
    by (simp_all add: minus_div_mult_eq_mod)
  ultimately show ?thesis by (simp add: filled_chunk_def)
qed

lemma ceiling_div_nonneg:
  assumes "1 \<le> c" and "0 \<le> n"
  shows "0 \<le> \<lceil>real_of_int n / real_of_int c\<rceil>"
proof -
  have "\<lceil>real_of_int n / real_of_int c\<rceil> = (n + c - 1) div c" using assms(1) by (intro ceiling_div_int) simp
  moreover have "0 \<le> (n + c - 1) div c" using assms by (simp add: pos_imp_zdiv_nonneg_iff)
  ultimately show ?thesis by simp
qed

lemma bake_general:
  assumes "fs (show_int grass_tile_id @ ''.png'') = Some grass_tile"
    and "1 \<le> chunk_size" and "1 \<le> tile_size" and "0 \<le> map_cols" and "0 \<le> map_rows"
  shows "\<exists>saved. bake blend tile_size chunk_size map_cols map_rows grass_tile_id fs = Inr saved
     \<and> int (length saved) = \<lceil>real_of_int map_cols / real_of_int chunk_size\<rceil> * \<lceil>real_of_int map_rows / real_of_int chunk_size\<rceil>
     \<and> map fst saved =
          concat (map (\<lambda>cy. map (\<lambda>cx. ''grass-chunk-'' @ show_int cx @ ''-'' @ show_int cy @ ''.png'')
                                  (py_range \<lceil>real_of_int map_cols / real_of_int chunk_size\<rceil>))
                      (py_range \<lceil>real_of_int map_rows / real_of_int chunk_size\<rceil>))
     \<and> (\<forall>chunk \<in> snd ` set saved.
           int (im_width chunk) = chunk_size * tile_size \<and> int (im_height chunk) = chunk_size * tile_size
         \<and> chunk = filled_chunk blend tile_size chunk_size grass_tile
         \<and> (im_width grass_tile = nat tile_size \<and> im_height grass_tile = nat tile_size \<longrightarrow>
              (\<forall>px py. 0 \<le> px \<and> px < chunk_size * tile_size \<and> 0 \<le> py \<and> py < chunk_size * tile_size \<longrightarrow>
                 im_pixel chunk px py =
                   blend_pixel blend (chan_a (im_pixel grass_tile (px mod tile_size) (py mod tile_size)))
                     transparent (im_pixel grass_tile (px mod tile_size) (py mod tile_size)))))"
proof -
  let ?cols = "\<lceil>real_of_int map_cols / real_of_int chunk_size\<rceil>"
  let ?rows = "\<lceil>real_of_int map_rows / real_of_int chunk_size\<rceil>"
  let ?chunk = "filled_chunk blend tile_size chunk_size grass_tile"
  let ?saved = "map (\<lambda>cell. (chunk_filename (fst cell) (snd cell), ?chunk)) (grid_cells ?cols ?rows)"
  have run: "bake blend tile_size chunk_size map_cols map_rows grass_tile_id fs = Inr ?saved"
    using bake_eq [of fs grass_tile_id grass_tile chunk_size tile_size blend map_cols map_rows] assms(1-3) by simp
  have c: "0 \<le> ?cols" and r: "0 \<le> ?rows"
    using ceiling_div_nonneg [OF assms(2,4)] ceiling_div_nonneg [OF assms(2,5)] by simp_all
  have len: "int (length ?saved) = ?cols * ?rows"
    using c r by (simp add: length_grid_cells del: of_int_0_le_iff zero_le_ceiling)
  have names: "map fst ?saved =
          concat (map (\<lambda>cy. map (\<lambda>cx. ''grass-chunk-'' @ show_int cx @ ''-'' @ show_int cy @ ''.png'') (py_range ?cols)) (py_range ?rows))"
    by (simp add: grid_cells_def map_concat comp_def chunk_filename_def)
  have "1 \<le> chunk_size * tile_size" using assms(2,3) by (rule int_mult_ge1)
  then have nn: "0 \<le> chunk_size * tile_size" by simp
  have size: "int (im_width ?chunk) = chunk_size * tile_size \<and> int (im_height ?chunk) = chunk_size * tile_size"
    using filled_chunk_size [OF nn] by simp
  have pix: "\<forall>px py. 0 \<le> px \<and> px < chunk_size * tile_size \<and> 0 \<le> py \<and> py < chunk_size * tile_size \<longrightarrow>
                 im_pixel ?chunk px py =
                   blend_pixel blend (chan_a (im_pixel grass_tile (px mod tile_size) (py mod tile_size)))
                     transparent (im_pixel grass_tile (px mod tile_size) (py mod tile_size))"
    if t: "im_width grass_tile = nat tile_size \<and> im_height grass_tile = nat tile_size"
  proof (intro allI impI)
    fix px py assume p: "0 \<le> px \<and> px < chunk_size * tile_size \<and> 0 \<le> py \<and> py < chunk_size * tile_size"
    from t p have "im_pixel ?chunk px py = self_blend blend transparent (im_pixel grass_tile (px mod tile_size) (py mod tile_size))"
      by (intro filled_chunk_pixel assms(2) assms(3)) simp_all
    then show "im_pixel ?chunk px py =
                   blend_pixel blend (chan_a (im_pixel grass_tile (px mod tile_size) (py mod tile_size)))
                     transparent (im_pixel grass_tile (px mod tile_size) (py mod tile_size))"
      by (simp add: self_blend_def)
  qed
  have all: "\<forall>chunk \<in> snd ` set ?saved.
           int (im_width chunk) = chunk_size * tile_size \<and> int (im_height chunk) = chunk_size * tile_size
         \<and> chunk = ?chunk
         \<and> (im_width grass_tile = nat tile_size \<and> im_height grass_tile = nat tile_size \<longrightarrow>
              (\<forall>px py. 0 \<le> px \<and> px < chunk_size * tile_size \<and> 0 \<le> py \<and> py < chunk_size * tile_size \<longrightarrow>
                 im_pixel chunk px py =
                   blend_pixel blend (chan_a (im_pixel grass_tile (px mod tile_size) (py mod tile_size)))
                     transparent (im_pixel grass_tile (px mod tile_size) (py mod tile_size))))"
  proof
    fix chunk assume "chunk \<in> snd ` set ?saved"
    then have e: "chunk = ?chunk" by auto
    show "int (im_width chunk) = chunk_size * tile_size \<and> int (im_height chunk) = chunk_size * tile_size
         \<and> chunk = ?chunk
         \<and> (im_width grass_tile = nat tile_size \<and> im_height grass_tile = nat tile_size \<longrightarrow>
              (\<forall>px py. 0 \<le> px \<and> px < chunk_size * tile_size \<and> 0 \<le> py \<and> py < chunk_size * tile_size \<longrightarrow>
                 im_pixel chunk px py =
                   blend_pixel blend (chan_a (im_pixel grass_tile (px mod tile_size) (py mod tile_size)))
                     transparent (im_pixel grass_tile (px mod tile_size) (py mod tile_size))))"
      unfolding e using size pix by blast
  qed
  from run len names all show ?thesis by blast
qed

lemma tilebaker_configured:
  assumes "fs ''24.png'' = Some grass_tile"
  shows "tilebaker blend fs = Inr [(''grass-chunk-0-0.png'', filled_chunk blend 16 16 grass_tile)]"
proof -
  have n: "show_int 24 @ ''.png'' = ''24.png''" by code_simp
  have f: "chunk_filename 0 0 = ''grass-chunk-0-0.png''" by code_simp
  have g: "grid_cells 1 1 = [(0, 0)]" by code_simp
  have "fs (show_int 24 @ ''.png'') = Some grass_tile" using assms by (simp only: n)
  from bake_eq [of fs 24 grass_tile 16 16 blend 16 16] this show ?thesis
    by (simp add: tilebaker_def TILE_SIZE_def CHUNK_SIZE_def MAP_COLS_def MAP_ROWS_def GRASS_TILE_ID_def g f)
qed

text \<open>
  Claim C7: for a chunk size \<open>\<ge> 1\<close>, a tile size \<open>\<ge> 1\<close> and a map size \<open>\<ge> 0\<close>, the baker
  runs to its end and saves exactly \<open>ceil(mapCols/chunkSize) * ceil(mapRows/chunkSize)\<close> chunks, named
  \<^verbatim>\<open>grass-chunk-<cx>-<cy>.png\<close> row by row, each \<open>chunkSize * tileSize\<close> wide and high and
  each the transparent canvas with the grass tile pasted at every cell; when the tile is
  \<open>tileSize\<close> wide and high, every pixel of a chunk is the blend of the tile's pixel at
  that place in its cell over transparent. With the constants of the script (tile size,
  chunk size and map size all 16) the run saves exactly one chunk,
  \<^verbatim>\<open>grass-chunk-0-0.png\<close>, of size 256 by 256.
\<close>

theorem baker_chunk_grid:
  "(fs (show_int grass_tile_id @ ''.png'') = Some grass_tile
      \<and> 1 \<le> chunk_size \<and> 1 \<le> tile_size \<and> 0 \<le> map_cols \<and> 0 \<le> map_rows \<longrightarrow>
    (\<exists>saved. bake blend tile_size chunk_size map_cols map_rows grass_tile_id fs = Inr saved
     \<and> int (length saved) = \<lceil>real_of_int map_cols / real_of_int chunk_size\<rceil> * \<lceil>real_of_int map_rows / real_of_int chunk_size\<rceil>
     \<and> map fst saved =
          concat (map (\<lambda>cy. map (\<lambda>cx. ''grass-chunk-'' @ show_int cx @ ''-'' @ show_int cy @ ''.png'')
                                  (py_range \<lceil>real_of_int map_cols / real_of_int chunk_size\<rceil>))
                      (py_range \<lceil>real_of_int map_rows / real_of_int chunk_size\<rceil>))
     \<and> (\<forall>chunk \<in> snd ` set saved.
           int (im_width chunk) = chunk_size * tile_size \<and> int (im_height chunk) = chunk_size * tile_size
         \<and> chunk = filled_chunk blend tile_size chunk_size grass_tile
         \<and> (im_width grass_tile = nat tile_size \<and> im_height grass_tile = nat tile_size \<longrightarrow>
              (\<forall>px py. 0 \<le> px \<and> px < chunk_size * tile_size \<and> 0 \<le> py \<and> py < chunk_size * tile_size \<longrightarrow>
                 im_pixel chunk px py =
                   blend_pixel blend (chan_a (im_pixel grass_tile (px mod tile_size) (py mod tile_size)))
                     transparent (im_pixel grass_tile (px mod tile_size) (py mod tile_size)))))))
   \<and> (fs ''24.png'' = Some grass_tile \<longrightarrow>
        (\<exists>chunk. tilebaker blend fs = Inr [(''grass-chunk-0-0.png'', chunk)]
           \<and> im_width chunk = 256 \<and> im_height chunk = 256
           \<and> chunk = filled_chunk blend 16 16 grass_tile))"
proof -
  have cfg: "\<exists>chunk. tilebaker blend fs = Inr [(''grass-chunk-0-0.png'', chunk)]
           \<and> im_width chunk = 256 \<and> im_height chunk = 256
           \<and> chunk = filled_chunk blend 16 16 grass_tile"
    if "fs ''24.png'' = Some grass_tile"
  proof -
    have "(0::int) \<le> 16 * 16" by simp
    from filled_chunk_size [OF this, of blend grass_tile]
    have "im_width (filled_chunk blend 16 16 grass_tile) = 256" "im_height (filled_chunk blend 16 16 grass_tile) = 256"
      by simp_all
    with tilebaker_configured [of fs grass_tile blend] that show ?thesis by simp
  qed
  from bake_general [of fs grass_tile_id grass_tile chunk_size tile_size map_cols map_rows blend] cfg
  show ?thesis by blast
qed

theorem baker_chunk_grid_witness:
  "\<exists>chunk. tilebaker (\<lambda>a d s. s) [''24.png'' \<mapsto> solid_image 16 16 (RGBA 10 200 10 255)]
              = Inr [(''grass-chunk-0-0.png'', chunk)]
     \<and> im_width chunk = 256 \<and> im_height chunk = 256
     \<and> im_pixel chunk 255 255 = RGBA 10 200 10 255"
proof -
  let ?tile = "solid_image 16 16 (RGBA 10 200 10 255)"
  let ?fs = "[''24.png'' \<mapsto> ?tile]"
  let ?blend = "\<lambda>(a::8 word) (d::8 word) (s::8 word). s"
  have n: "show_int 24 @ ''.png'' = ''24.png''" by code_simp
  have h: "?fs (show_int 24 @ ''.png'') = Some ?tile \<and> (1::int) \<le> 16 \<and> (1::int) \<le> 16 \<and> (0::int) \<le> 16 \<and> (0::int) \<le> 16"
    unfolding n by simp
  have h2: "?fs ''24.png'' = Some ?tile" by simp
  have t: "im_width ?tile = nat 16 \<and> im_height ?tile = nat 16" by (simp add: solid_image_def)
  note inst = baker_chunk_grid [of ?fs 24 ?tile 16 16 16 16 ?blend]
  from inst h2 obtain chunk where
    r: "tilebaker ?blend ?fs = Inr [(''grass-chunk-0-0.png'', chunk)]"
    and w: "im_width chunk = 256" "im_height chunk = 256" by blast
  from inst h obtain saved where
    b: "bake ?blend 16 16 16 16 24 ?fs = Inr saved"
    and a: "\<forall>chunk \<in> snd ` set saved.
           int (im_width chunk) = 16 * 16 \<and> int (im_height chunk) = 16 * 16
         \<and> chunk = filled_chunk ?blend 16 16 ?tile
         \<and> (im_width ?tile = nat 16 \<and> im_height ?tile = nat 16 \<longrightarrow>
              (\<forall>px py. 0 \<le> px \<and> px < 16 * 16 \<and> 0 \<le> py \<and> py < 16 * 16 \<longrightarrow>
                 im_pixel chunk px py =
                   blend_pixel ?blend (chan_a (im_pixel ?tile (px mod 16) (py mod 16)))
                     transparent (im_pixel ?tile (px mod 16) (py mod 16))))"
    by blast
  from r b have "saved = [(''grass-chunk-0-0.png'', chunk)]"
    by (simp add: tilebaker_def TILE_SIZE_def CHUNK_SIZE_def MAP_COLS_def MAP_ROWS_def GRASS_TILE_ID_def)
  then have "chunk \<in> snd ` set saved" by simp
  with a t have "\<forall>px py. 0 \<le> px \<and> px < 16 * 16 \<and> 0 \<le> py \<and> py < 16 * 16 \<longrightarrow>
                 im_pixel chunk px py =
                   blend_pixel ?blend (chan_a (im_pixel ?tile (px mod 16) (py mod 16)))
                     transparent (im_pixel ?tile (px mod 16) (py mod 16))" by blast
  then have "im_pixel chunk 255 255 = blend_pixel ?blend (chan_a (im_pixel ?tile (255 mod 16) (255 mod 16)))
                     transparent (im_pixel ?tile (255 mod 16) (255 mod 16))" by simp
  then have "im_pixel chunk 255 255 = RGBA 10 200 10 255" by (simp add: solid_image_def blend_pixel_def)
  with r w show ?thesis by blast
qed

end
